theory Spec2Isabelle
  imports Complex_Main "HOL-Library.Product_Lexorder" "HOL-Library.Log_Nat"
begin

section \<open>JavaScript values shared by the three subsystems\<close>

subsection \<open>Numbers\<close>

text \<open>
  A JavaScript number is an IEEE 754 double: a finite double, \<open>+Infinity\<close>, \<open>-Infinity\<close> or
  \<open>NaN\<close>. A finite double is held by the rational it denotes, so the two zeros are one
  value and the \<open>NaN\<close>s are one value; the source never divides by a zero and never looks
  at the sign of one.

  Every arithmetic operation rounds its exact result to the nearest double, a tie going to
  the double with the even mantissa, and to an infinity when the rounded result reaches
  \<open>2^1024\<close>. The doubles around \<open>x\<close> are the multiples of \<open>2^e\<close>, where \<open>e\<close> is the exponent of
  \<open>x\<close> less 52, and at least \<open>-1074\<close> (the subnormal doubles).
\<close>

text \<open>The nearest integer, a tie going to the even one.\<close>

definition round_half_even :: "rat \<Rightarrow> int" where
  "round_half_even y =
     (let f = \<lfloor>y\<rfloor>; r = y - of_int f
      in if r < 1 / 2 then f else if r > 1 / 2 then f + 1 else if even f then f else f + 1)"

text \<open>The exponent of a nonzero \<open>x\<close>: the \<open>d\<close> with \<open>2^d \<le> |x| < 2^(d + 1)\<close>.\<close>

definition ilog2 :: "rat \<Rightarrow> int" where
  "ilog2 x =
     (let (p, q) = quotient_of \<bar>x\<bar>; d = bitlen p - bitlen q
      in if 2 powi d \<le> \<bar>x\<bar> then d else d - 1)"

definition ulp_exponent :: "rat \<Rightarrow> int" where
  "ulp_exponent x = max (- 1074) (ilog2 x - 52)"

definition round_to_double :: "rat \<Rightarrow> rat" where
  "round_to_double x =
     (if x = 0 then 0
      else of_int (round_half_even (x / 2 powi ulp_exponent x)) * 2 powi ulp_exponent x)"

text \<open>The finite doubles: the rationals that rounding leaves alone, below \<open>2^1024\<close>.\<close>

definition is_double :: "rat \<Rightarrow> bool" where
  "is_double x \<longleftrightarrow> round_to_double x = x \<and> \<bar>x\<bar> < 2 powi 1024"

typedef finite_double = "{x. is_double x}" morphisms val the_double
  by (rule exI [of _ 0]) (simp add: is_double_def round_to_double_def)

datatype number = Finite finite_double | PosInfinity | NegInfinity | NaN

text \<open>The number that the exact result \<open>x\<close> of an operation, or the numeral \<open>x\<close>, rounds to.\<close>

definition dbl :: "rat \<Rightarrow> number" where
  "dbl x =
     (let r = round_to_double x
      in if 2 powi 1024 \<le> r then PosInfinity
         else if r \<le> - (2 powi 1024) then NegInfinity
         else Finite (the_double r))"

text \<open>The operators \<open>-x\<close>, \<open>+\<close>, \<open>-\<close>, \<open>*\<close> and \<open>/\<close> on numbers.\<close>

fun js_neg :: "number \<Rightarrow> number" where
  "js_neg (Finite x) = dbl (- val x)"
| "js_neg PosInfinity = NegInfinity"
| "js_neg NegInfinity = PosInfinity"
| "js_neg NaN = NaN"

fun js_add :: "number \<Rightarrow> number \<Rightarrow> number" where
  "js_add (Finite x) (Finite y) = dbl (val x + val y)"
| "js_add NaN b = NaN"
| "js_add a NaN = NaN"
| "js_add PosInfinity NegInfinity = NaN"
| "js_add NegInfinity PosInfinity = NaN"
| "js_add PosInfinity b = PosInfinity"
| "js_add a PosInfinity = PosInfinity"
| "js_add NegInfinity b = NegInfinity"
| "js_add a NegInfinity = NegInfinity"

definition js_sub :: "number \<Rightarrow> number \<Rightarrow> number" where
  "js_sub a b = js_add a (js_neg b)"

fun js_mul :: "number \<Rightarrow> number \<Rightarrow> number" where
  "js_mul (Finite x) (Finite y) = dbl (val x * val y)"
| "js_mul NaN b = NaN"
| "js_mul a NaN = NaN"
| "js_mul (Finite x) b = (if val x = 0 then NaN else if 0 < val x then b else js_neg b)"
| "js_mul a (Finite y) = (if val y = 0 then NaN else if 0 < val y then a else js_neg a)"
| "js_mul a b = (if a = b then PosInfinity else NegInfinity)"

fun js_div :: "number \<Rightarrow> number \<Rightarrow> number" where
  "js_div (Finite x) (Finite y) =
     (if val y = 0 then
        (if val x = 0 then NaN else if 0 < val x then PosInfinity else NegInfinity)
      else dbl (val x / val y))"
| "js_div NaN b = NaN"
| "js_div a NaN = NaN"
| "js_div (Finite x) b = dbl 0"
| "js_div a (Finite y) = (if 0 \<le> val y then a else js_neg a)"
| "js_div a b = NaN"

text \<open>
  The comparisons \<open><\<close>, \<open><=\<close>, \<open>>\<close> and \<open>>=\<close>: each is false when an operand is \<open>NaN\<close>. The
  comparison \<open>===\<close> of two numbers is the equality of the model, but for \<open>NaN === NaN\<close>, which
  is false (the source applies \<open>===\<close> only with the operand 0).
\<close>

fun js_lt :: "number \<Rightarrow> number \<Rightarrow> bool" where
  "js_lt (Finite x) (Finite y) \<longleftrightarrow> val x < val y"
| "js_lt NaN b \<longleftrightarrow> False"
| "js_lt a NaN \<longleftrightarrow> False"
| "js_lt a NegInfinity \<longleftrightarrow> False"
| "js_lt PosInfinity b \<longleftrightarrow> False"
| "js_lt NegInfinity b \<longleftrightarrow> True"
| "js_lt a PosInfinity \<longleftrightarrow> True"

definition js_le :: "number \<Rightarrow> number \<Rightarrow> bool" where
  "js_le a b \<longleftrightarrow> a \<noteq> NaN \<and> b \<noteq> NaN \<and> \<not> js_lt b a"

definition js_gt :: "number \<Rightarrow> number \<Rightarrow> bool" where
  "js_gt a b \<longleftrightarrow> js_lt b a"

definition js_ge :: "number \<Rightarrow> number \<Rightarrow> bool" where
  "js_ge a b \<longleftrightarrow> js_le b a"

text \<open>\<open>Math.max\<close> and \<open>Math.min\<close> of two numbers: \<open>NaN\<close> when one of them is \<open>NaN\<close>.\<close>

definition Math_max :: "number \<Rightarrow> number \<Rightarrow> number" where
  "Math_max a b = (if a = NaN \<or> b = NaN then NaN else if js_lt a b then b else a)"

definition Math_min :: "number \<Rightarrow> number \<Rightarrow> number" where
  "Math_min a b = (if a = NaN \<or> b = NaN then NaN else if js_lt b a then b else a)"

text \<open>
  \<open>Math.round\<close>: the integer nearest to the number, a tie going up; an infinity and \<open>NaN\<close>
  are returned as they are.
\<close>

fun Math_round :: "number \<Rightarrow> number" where
  "Math_round (Finite x) = dbl (of_int \<lfloor>val x + 1 / 2\<rfloor>)"
| "Math_round PosInfinity = PosInfinity"
| "Math_round NegInfinity = NegInfinity"
| "Math_round NaN = NaN"

text \<open>\<open>Number.isFinite\<close> and \<open>Number.isInteger\<close> on a number.\<close>

fun Number_isFinite :: "number \<Rightarrow> bool" where
  "Number_isFinite (Finite x) \<longleftrightarrow> True"
| "Number_isFinite a \<longleftrightarrow> False"

fun Number_isInteger :: "number \<Rightarrow> bool" where
  "Number_isInteger (Finite x) \<longleftrightarrow> of_int \<lfloor>val x\<rfloor> = val x"
| "Number_isInteger a \<longleftrightarrow> False"

subsection \<open>Errors\<close>

text \<open>
  An error object, with the properties the source reads from it: \<open>name\<close>, \<open>code\<close> (absent,
  a number or a string), \<open>message\<close> and \<open>shortMessage\<close> (the empty string when absent),
  \<open>statusCode\<close>, and the nested errors \<open>error\<close> and \<open>cause\<close>.
\<close>

datatype error_code = NoCode | NumCode int | StrCode string

datatype js_error =
  JsError (error_name: string) (error_code: error_code) (error_message: string)
    (error_shortMessage: string) (error_statusCode: "int option")
    (error_error: "js_error option") (error_cause: "js_error option")

definition TypeError :: "string \<Rightarrow> js_error" where
  "TypeError msg = JsError ''TypeError'' NoCode msg [] None None None"

definition Error :: "string \<Rightarrow> js_error" where
  "Error msg = JsError ''Error'' NoCode msg [] None None None"

subsection \<open>Strings\<close>

text \<open>
  Strings are ASCII. \<open>toLowerCase\<close> maps \<open>A\<close>..\<open>Z\<close> to \<open>a\<close>..\<open>z\<close>, \<open>trim\<close> strips the ASCII
  white space at both ends, and \<open>includes\<close> (here \<open>str_includes\<close>) is the substring test.
\<close>

definition lower_char :: "char \<Rightarrow> char" where
  "lower_char c =
     (let n = (of_char c :: nat) in if 65 \<le> n \<and> n \<le> 90 then char_of (n + 32) else c)"

definition toLowerCase :: "string \<Rightarrow> string" where
  "toLowerCase s = map lower_char s"

definition is_space :: "char \<Rightarrow> bool" where
  "is_space c \<longleftrightarrow> (of_char c :: nat) \<in> {9, 10, 11, 12, 13, 32}"

definition trim :: "string \<Rightarrow> string" where
  "trim s = rev (dropWhile is_space (rev (dropWhile is_space s)))"

fun startsWith :: "string \<Rightarrow> string \<Rightarrow> bool" where
  "startsWith s [] = True"
| "startsWith [] (t # ts) = False"
| "startsWith (c # cs) (t # ts) = (c = t \<and> startsWith cs ts)"

fun str_includes :: "string \<Rightarrow> string \<Rightarrow> bool" where
  "str_includes [] token = (token = [])"
| "str_includes (c # cs) token = (startsWith (c # cs) token \<or> str_includes cs token)"

section \<open>Scoring engine (server/scoring.js)\<close>

definition DAY_MS :: number where
  "DAY_MS = js_mul (js_mul (js_mul (dbl 24) (dbl 60)) (dbl 60)) (dbl 1000)"

definition DEFAULT_MAX_SCORE :: number where
  "DEFAULT_MAX_SCORE = dbl 1000"

text \<open>
  The configuration object handed to \<open>normalizeConfig\<close>. Each property holds the number
  \<open>Number(property)\<close>, which is \<open>NaN\<close> for a missing property and for a text that is not a
  number.
\<close>

record config_input =
  in_decayWindowDays :: number
  in_recentFeedbackWeight :: number
  in_olderFeedbackWeight :: number
  in_confidenceThresholdFeedbackCount :: number
  in_confidenceMultiplier :: number
  in_negativeFlagThresholdBps :: number
  in_recentNegativeWindowDays :: number
  in_flaggedScoreMultiplier :: number
  in_maxScore :: number

record scoring_config =
  decayWindowDays :: number
  recentFeedbackWeight :: number
  olderFeedbackWeight :: number
  confidenceThresholdFeedbackCount :: number
  confidenceMultiplier :: number
  negativeFlagThresholdBps :: number
  recentNegativeWindowDays :: number
  flaggedScoreMultiplier :: number
  maxScore :: number

definition DEFAULT_SCORING_CONFIG :: scoring_config where
  "DEFAULT_SCORING_CONFIG =
     \<lparr> decayWindowDays = dbl 30, recentFeedbackWeight = dbl 2, olderFeedbackWeight = dbl 1,
       confidenceThresholdFeedbackCount = dbl 50, confidenceMultiplier = dbl (105 / 100),
       negativeFlagThresholdBps = dbl 2000, recentNegativeWindowDays = dbl 7,
       flaggedScoreMultiplier = dbl (9 / 10), maxScore = DEFAULT_MAX_SCORE \<rparr>"

text \<open>A configuration as an input object: every property is the number it holds.\<close>

definition config_as_input :: "scoring_config \<Rightarrow> config_input" where
  "config_as_input c =
     \<lparr> in_decayWindowDays = decayWindowDays c,
       in_recentFeedbackWeight = recentFeedbackWeight c,
       in_olderFeedbackWeight = olderFeedbackWeight c,
       in_confidenceThresholdFeedbackCount = confidenceThresholdFeedbackCount c,
       in_confidenceMultiplier = confidenceMultiplier c,
       in_negativeFlagThresholdBps = negativeFlagThresholdBps c,
       in_recentNegativeWindowDays = recentNegativeWindowDays c,
       in_flaggedScoreMultiplier = flaggedScoreMultiplier c,
       in_maxScore = maxScore c \<rparr>"

text \<open>The argument \<open>parsed\<close> of the three functions is \<open>Number(value)\<close>.\<close>

definition toPositiveNumber :: "number \<Rightarrow> number \<Rightarrow> number" where
  "toPositiveNumber parsed fallback =
     (if Number_isFinite parsed \<and> js_gt parsed (dbl 0) then parsed else fallback)"

definition toPositiveInt :: "number \<Rightarrow> number \<Rightarrow> number" where
  "toPositiveInt parsed fallback =
     (if Number_isInteger parsed \<and> js_gt parsed (dbl 0) then parsed else fallback)"

definition toBps :: "number \<Rightarrow> number \<Rightarrow> number" where
  "toBps parsed fallback =
     (if \<not> Number_isInteger parsed then fallback
      else if js_lt parsed (dbl 0) then dbl 0
      else if js_gt parsed (dbl 10000) then dbl 10000
      else parsed)"

definition clamp :: "number \<Rightarrow> number \<Rightarrow> number \<Rightarrow> number" where
  "clamp v lo hi = Math_min hi (Math_max lo v)"

definition normalizeConfig :: "config_input \<Rightarrow> scoring_config" where
  "normalizeConfig input =
     \<lparr> decayWindowDays =
         toPositiveInt (in_decayWindowDays input) (decayWindowDays DEFAULT_SCORING_CONFIG),
       recentFeedbackWeight =
         toPositiveNumber (in_recentFeedbackWeight input)
           (recentFeedbackWeight DEFAULT_SCORING_CONFIG),
       olderFeedbackWeight =
         toPositiveNumber (in_olderFeedbackWeight input)
           (olderFeedbackWeight DEFAULT_SCORING_CONFIG),
       confidenceThresholdFeedbackCount =
         toPositiveInt (in_confidenceThresholdFeedbackCount input)
           (confidenceThresholdFeedbackCount DEFAULT_SCORING_CONFIG),
       confidenceMultiplier =
         toPositiveNumber (in_confidenceMultiplier input)
           (confidenceMultiplier DEFAULT_SCORING_CONFIG),
       negativeFlagThresholdBps =
         toBps (in_negativeFlagThresholdBps input)
           (negativeFlagThresholdBps DEFAULT_SCORING_CONFIG),
       recentNegativeWindowDays =
         toPositiveInt (in_recentNegativeWindowDays input)
           (recentNegativeWindowDays DEFAULT_SCORING_CONFIG),
       flaggedScoreMultiplier =
         toPositiveNumber (in_flaggedScoreMultiplier input)
           (flaggedScoreMultiplier DEFAULT_SCORING_CONFIG),
       maxScore = toPositiveInt (in_maxScore input) (maxScore DEFAULT_SCORING_CONFIG) \<rparr>"

text \<open>
  A feedback entry. A time property is absent (\<open>undefined\<close> or \<open>null\<close>), a \<open>Date\<close> with its
  \<open>getTime()\<close>, a number, a string with its \<open>Date.parse\<close>, or a value of another type.
  \<open>isPositive\<close> is present when it is a boolean, \<open>sentiment\<close> when it is a string, \<open>rating\<close>
  when it is a number.
\<close>

datatype time_value =
  Absent | DateValue number | NumberValue number | StringValue number | OtherValue

record feedback =
  timestamp :: time_value
  createdAt :: time_value
  time :: time_value
  isPositive :: "bool option"
  sentiment :: "string option"
  rating :: "number option"

definition parseFeedbackTimestampMs :: "feedback \<Rightarrow> js_error + number" where
  "parseFeedbackTimestampMs fb =
     (let raw = (if timestamp fb \<noteq> Absent then timestamp fb
                 else if createdAt fb \<noteq> Absent then createdAt fb
                 else time fb)
      in case raw of
           Absent \<Rightarrow> Inl (TypeError ''Feedback entry is missing timestamp/createdAt/time'')
         | DateValue ms \<Rightarrow>
             if \<not> Number_isFinite ms then Inl (TypeError ''Feedback timestamp Date is invalid'')
             else Inr ms
         | NumberValue r \<Rightarrow>
             if \<not> Number_isFinite r \<or> js_le r (dbl 0) then
               Inl (TypeError ''Feedback timestamp number is invalid'')
             else Inr (if js_lt r (dbl (10 ^ 12)) then js_mul r (dbl 1000) else r)
         | StringValue ms \<Rightarrow>
             if \<not> Number_isFinite ms then
               Inl (TypeError ''Feedback timestamp string is invalid'')
             else Inr ms
         | OtherValue \<Rightarrow> Inl (TypeError ''Feedback timestamp type is unsupported''))"

definition parseFeedbackSentiment :: "feedback \<Rightarrow> js_error + bool" where
  "parseFeedbackSentiment fb =
     (case isPositive fb of
        Some b \<Rightarrow> Inr b
      | None \<Rightarrow>
          (let normalized = map_option (\<lambda>s. toLowerCase (trim s)) (sentiment fb) in
           if normalized = Some ''positive'' then Inr True
           else if normalized = Some ''negative'' then Inr False
           else case rating fb of
                  Some r \<Rightarrow>
                    if Number_isFinite r then Inr (js_gt r (dbl 0))
                    else
                      Inl (TypeError
                        ''Feedback entry must include isPositive boolean (or equivalent sentiment/rating)'')
                | None \<Rightarrow>
                    Inl (TypeError
                      ''Feedback entry must include isPositive boolean (or equivalent sentiment/rating)'')))"

text \<open>
  The six accumulators of the loop over the feedback entries. In the source the four
  counters are \<open>totalFeedback\<close>, \<open>positiveFeedback\<close>, \<open>recentFeedbackCount\<close> and
  \<open>recentNegativeCount\<close>; they are numbers as the two sums are.
\<close>

record tally =
  weightedPositive :: number
  weightedTotal :: number
  totalCount :: number
  positiveCount :: number
  recentCount :: number
  recentNegativeCount :: number

definition empty_tally :: tally where
  "empty_tally =
     \<lparr> weightedPositive = dbl 0, weightedTotal = dbl 0, totalCount = dbl 0,
       positiveCount = dbl 0, recentCount = dbl 0, recentNegativeCount = dbl 0 \<rparr>"

text \<open>One iteration of the loop body, for an entry already parsed.\<close>

definition count_entry ::
  "scoring_config \<Rightarrow> number \<Rightarrow> number \<Rightarrow> number \<Rightarrow> bool \<Rightarrow> tally \<Rightarrow> tally" where
  "count_entry cfg decayCutoffMs recentNegativeCutoffMs timestampMs positive t =
     (let weight = (if js_ge timestampMs decayCutoffMs then recentFeedbackWeight cfg
                    else olderFeedbackWeight cfg);
          recent = js_ge timestampMs recentNegativeCutoffMs
      in \<lparr> weightedPositive = (if positive then js_add (weightedPositive t) weight
                               else weightedPositive t),
           weightedTotal = js_add (weightedTotal t) weight,
           totalCount = js_add (totalCount t) (dbl 1),
           positiveCount = (if positive then js_add (positiveCount t) (dbl 1)
                            else positiveCount t),
           recentCount = (if recent then js_add (recentCount t) (dbl 1) else recentCount t),
           recentNegativeCount =
             (if recent \<and> \<not> positive then js_add (recentNegativeCount t) (dbl 1)
              else recentNegativeCount t) \<rparr>)"

text \<open>The loop: it stops at the first entry whose time or sentiment cannot be parsed.\<close>

fun count_feedback ::
  "scoring_config \<Rightarrow> number \<Rightarrow> number \<Rightarrow> feedback list \<Rightarrow> tally \<Rightarrow> js_error + tally" where
  "count_feedback cfg dc rc [] t = Inr t"
| "count_feedback cfg dc rc (fb # fbs) t =
     (case parseFeedbackTimestampMs fb of
        Inl e \<Rightarrow> Inl e
      | Inr timestampMs \<Rightarrow>
          (case parseFeedbackSentiment fb of
             Inl e \<Rightarrow> Inl e
           | Inr positive \<Rightarrow>
               count_feedback cfg dc rc fbs (count_entry cfg dc rc timestampMs positive t)))"

record scoring_result =
  score :: number
  baseScore :: number
  confidenceAdjustedScore :: number
  flagged :: bool
  totalFeedback :: number
  positiveFeedback :: number
  recentNegativeRateBps :: number
  recentFeedbackCount :: number
  confidenceApplied :: bool

text \<open>The part of \<open>scoreFeedbackDetailed\<close> after the loop.\<close>

definition score_tally :: "scoring_config \<Rightarrow> tally \<Rightarrow> scoring_result" where
  "score_tally cfg t =
     (if weightedTotal t = dbl 0 then
        \<lparr> score = dbl 0, baseScore = dbl 0, confidenceAdjustedScore = dbl 0, flagged = False,
          totalFeedback = dbl 0, positiveFeedback = dbl 0, recentNegativeRateBps = dbl 0,
          recentFeedbackCount = dbl 0, confidenceApplied = False \<rparr>
      else
        (let baseScoreRaw = js_mul (js_div (weightedPositive t) (weightedTotal t)) (maxScore cfg);
             applied = js_ge (totalCount t) (confidenceThresholdFeedbackCount cfg);
             confidenceAdjustedRaw =
               (if applied then js_mul baseScoreRaw (confidenceMultiplier cfg)
                else baseScoreRaw);
             rate = (if recentCount t = dbl 0 then dbl 0
                     else Math_round
                       (js_mul (js_div (recentNegativeCount t) (recentCount t)) (dbl 10000)));
             flag = (js_gt (recentCount t) (dbl 0)
                     \<and> js_gt rate (negativeFlagThresholdBps cfg));
             penalizedRaw =
               (if flag then js_mul confidenceAdjustedRaw (flaggedScoreMultiplier cfg)
                else confidenceAdjustedRaw)
         in \<lparr> score = Math_round (clamp penalizedRaw (dbl 0) (maxScore cfg)),
              baseScore = Math_round (clamp baseScoreRaw (dbl 0) (maxScore cfg)),
              confidenceAdjustedScore =
                Math_round (clamp confidenceAdjustedRaw (dbl 0) (maxScore cfg)),
              flagged = flag,
              totalFeedback = totalCount t,
              positiveFeedback = positiveCount t,
              recentNegativeRateBps = rate,
              recentFeedbackCount = recentCount t,
              confidenceApplied = applied \<rparr>))"

text \<open>
  \<open>scoreFeedbackDetailed(feedbacks, config, nowMs)\<close>. The argument \<open>feedbacks\<close> is a list,
  so the source's \<open>Array.isArray\<close> test holds.
\<close>

definition scoreFeedbackDetailed ::
  "feedback list \<Rightarrow> config_input \<Rightarrow> number \<Rightarrow> js_error + scoring_result" where
  "scoreFeedbackDetailed feedbacks config nowMs =
     (let cfg = normalizeConfig config;
          decayCutoffMs = js_sub nowMs (js_mul (decayWindowDays cfg) DAY_MS);
          recentNegativeCutoffMs = js_sub nowMs (js_mul (recentNegativeWindowDays cfg) DAY_MS)
      in case count_feedback cfg decayCutoffMs recentNegativeCutoffMs feedbacks empty_tally of
           Inl e \<Rightarrow> Inl e
         | Inr t \<Rightarrow> Inr (score_tally cfg t))"

definition scoreFeedback :: "feedback list \<Rightarrow> config_input \<Rightarrow> number \<Rightarrow> js_error + number" where
  "scoreFeedback feedbacks config nowMs =
     map_sum id score (scoreFeedbackDetailed feedbacks config nowMs)"

text \<open>
  What the loop keeps true of its accumulators: the weighted sums are ordered and not
  negative, and so are the counts of recent entries; a counter never passes \<open>2^53\<close>, where
  adding 1 no longer changes a double.
\<close>

definition tally_inv :: "tally \<Rightarrow> bool" where
  "tally_inv t \<longleftrightarrow>
     js_le (dbl 0) (weightedPositive t) \<and> js_le (weightedPositive t) (weightedTotal t)
     \<and> js_le (dbl 0) (recentNegativeCount t)
     \<and> js_le (recentNegativeCount t) (recentCount t)
     \<and> js_le (recentCount t) (dbl 9007199254740992)
     \<and> js_le (dbl 0) (totalCount t) \<and> js_le (totalCount t) (dbl 9007199254740992)"

subsection \<open>Inputs of the scoring scenarios\<close>

text \<open>
  The entry the indexer and the tests build: \<open>{isPositive, timestamp}\<close> with a numeric
  timestamp.
\<close>

definition entry :: "bool \<Rightarrow> number \<Rightarrow> feedback" where
  "entry p ts =
     \<lparr> timestamp = NumberValue ts, createdAt = Absent, time = Absent,
       isPositive = Some p, sentiment = None, rating = None \<rparr>"

text \<open>Five positive and two negative entries, each at \<open>nowMs - DAY_MS\<close>.\<close>

definition five_two :: "number \<Rightarrow> feedback list" where
  "five_two nowMs =
     [entry True (js_sub nowMs DAY_MS), entry True (js_sub nowMs DAY_MS),
      entry True (js_sub nowMs DAY_MS), entry True (js_sub nowMs DAY_MS),
      entry True (js_sub nowMs DAY_MS), entry False (js_sub nowMs DAY_MS),
      entry False (js_sub nowMs DAY_MS)]"

definition penalty_config :: config_input where
  "penalty_config =
     (config_as_input DEFAULT_SCORING_CONFIG)
       \<lparr> in_recentNegativeWindowDays := dbl 7, in_negativeFlagThresholdBps := dbl 2000,
         in_flaggedScoreMultiplier := dbl (8 / 10),
         in_confidenceThresholdFeedbackCount := dbl 999 \<rparr>"

text \<open>A configuration whose confidence multiplier is below one.\<close>

definition halving_config :: config_input where
  "halving_config =
     (config_as_input DEFAULT_SCORING_CONFIG)
       \<lparr> in_confidenceThresholdFeedbackCount := dbl 2,
         in_confidenceMultiplier := dbl (1 / 2) \<rparr>"

text \<open>A configuration whose flagging threshold is above the scale.\<close>

definition saturated_config :: config_input where
  "saturated_config =
     (config_as_input DEFAULT_SCORING_CONFIG) \<lparr> in_negativeFlagThresholdBps := dbl 20000 \<rparr>"

text \<open>A configuration whose weight for recent entries is the double \<open>2^1023\<close>.\<close>

definition heavy_config :: config_input where
  "heavy_config =
     (config_as_input DEFAULT_SCORING_CONFIG) \<lparr> in_recentFeedbackWeight := dbl (2 ^ 1023) \<rparr>"

section \<open>Agent identifiers (server/validation.js)\<close>

definition UINT256_MAX :: nat where
  "UINT256_MAX = 2 ^ 256 - 1"

definition is_digit :: "char \<Rightarrow> bool" where
  "is_digit c \<longleftrightarrow> 48 \<le> (of_char c :: nat) \<and> (of_char c :: nat) \<le> 57"

text \<open>\<open>BigInt(s)\<close> on a string of decimal digits, and \<open>toString()\<close> on a big integer.\<close>

definition digits_value :: "string \<Rightarrow> nat" where
  "digits_value s = foldl (\<lambda>acc c. acc * 10 + (of_char c - 48)) 0 s"

fun decimal :: "nat \<Rightarrow> string" where
  "decimal n =
     (if n < 10 then [''0123456789'' ! n]
      else decimal (n div 10) @ [''0123456789'' ! (n mod 10)])"

declare decimal.simps [simp del]

definition parseAgentIdParam :: "string \<Rightarrow> js_error + nat" where
  "parseAgentIdParam rawAgentId =
     (if rawAgentId = [] then Inl (Error ''agentId is required'')
      else if \<not> list_all is_digit rawAgentId then
        Inl (Error ''agentId must be a base-10 unsigned integer'')
      else if digits_value rawAgentId > UINT256_MAX then
        Inl (Error ''agentId exceeds uint256 range'')
      else Inr (digits_value rawAgentId))"

section \<open>Trust client (src/agentkit)\<close>

subsection \<open>types.js\<close>

datatype status = STATUS_OK | STATUS_DEGRADED | STATUS_ERROR

datatype verdict = TRUSTED | CAUTION | DANGEROUS | UNKNOWN

datatype recommendation = PROCEED | MANUAL_REVIEW | ABORT

datatype source = API_PAID | API_DEMO | TRUSTSCORE_CONTRACT

text \<open>The argument is \<open>None\<close> when it is not a number (it is \<open>null\<close> then).\<close>

definition resolveVerdict :: "number option \<Rightarrow> verdict" where
  "resolveVerdict sc =
     (case sc of
        None \<Rightarrow> UNKNOWN
      | Some s \<Rightarrow>
          if s = NaN then UNKNOWN
          else if js_gt s (dbl 700) then TRUSTED
          else if js_ge s (dbl 400) then CAUTION
          else DANGEROUS)"

definition resolveRecommendation :: "verdict \<Rightarrow> recommendation" where
  "resolveRecommendation v =
     (if v = TRUSTED then PROCEED
      else if v = CAUTION \<or> v = UNKNOWN then MANUAL_REVIEW
      else ABORT)"

text \<open>
  \<open>Number(value.toFixed(4))\<close>. \<open>toFixed(4)\<close> takes the integer \<open>n\<close> for which \<open>n / 10^4\<close> is
  nearest to the magnitude of the number, the larger \<open>n\<close> at a tie, and prints it with the
  sign and four decimals; \<open>Number\<close> reads the double nearest to that decimal. A magnitude
  of \<open>10^21\<close> or more, an infinity and \<open>NaN\<close> are printed as \<open>String\<close> prints them, and
  \<open>Number\<close> reads the same number back.
\<close>

definition toFixed4 :: "number \<Rightarrow> number" where
  "toFixed4 v =
     (case v of
        Finite x \<Rightarrow>
          if 10 ^ 21 \<le> \<bar>val x\<bar> then v
          else dbl (sgn (val x) * of_int \<lfloor>\<bar>val x\<bar> * 10000 + 1 / 2\<rfloor> / 10000)
      | _ \<Rightarrow> v)"

definition clampConfidence :: "number option \<Rightarrow> number option" where
  "clampConfidence value =
     (case value of
        None \<Rightarrow> None
      | Some v \<Rightarrow>
          if v = NaN then None
          else if js_lt v (dbl 0) then Some (dbl 0)
          else if js_gt v (dbl 1) then Some (dbl 1)
          else Some (toFixed4 v))"

subsection \<open>fallbacks.js\<close>

datatype fallback_code =
  ORACLE_UNAVAILABLE | API_TIMEOUT | PAYMENT_UNAVAILABLE | RPC_UNAVAILABLE
  | AGENT_NOT_FOUND | INVALID_AGENT_ID

fun fallback_text :: "fallback_code \<Rightarrow> string" where
  "fallback_text ORACLE_UNAVAILABLE = ''oracle_unavailable''"
| "fallback_text API_TIMEOUT = ''api_timeout''"
| "fallback_text PAYMENT_UNAVAILABLE = ''payment_unavailable''"
| "fallback_text RPC_UNAVAILABLE = ''rpc_unavailable''"
| "fallback_text AGENT_NOT_FOUND = ''agent_not_found''"
| "fallback_text INVALID_AGENT_ID = ''invalid_agent_id''"

text \<open>\<open>String(error)\<close> for an error object, as \<open>Error.prototype.toString\<close> builds it.\<close>

definition error_to_string :: "js_error \<Rightarrow> string" where
  "error_to_string e =
     (if error_message e = [] then error_name e
      else if error_name e = [] then error_message e
      else error_name e @ '': '' @ error_message e)"

definition toErrorMessage :: "js_error \<Rightarrow> string" where
  "toErrorMessage e =
     (if trim (error_message e) \<noteq> [] then trim (error_message e) else error_to_string e)"

definition isTimeoutError :: "js_error \<Rightarrow> bool" where
  "isTimeoutError e \<longleftrightarrow>
     error_name e = ''AbortError'' \<or> error_code e = StrCode ''ABORT_ERR''
     \<or> str_includes (toLowerCase (error_message e)) ''timeout''"

text \<open>The \<open>isRpcError\<close> of fallbacks.js; the indexer has another function of that name.\<close>

definition fallbacks_isRpcError :: "js_error \<Rightarrow> bool" where
  "fallbacks_isRpcError e \<longleftrightarrow>
     (let normalized =
        toLowerCase (if error_message e \<noteq> [] then error_message e else error_shortMessage e)
      in str_includes normalized ''network'' \<or> str_includes normalized ''socket''
         \<or> str_includes normalized ''connect'' \<or> str_includes normalized ''rpc'')"

definition isCallException :: "js_error \<Rightarrow> bool" where
  "isCallException e \<longleftrightarrow>
     error_code e = StrCode ''CALL_EXCEPTION''
     \<or> str_includes (toLowerCase (error_message e)) ''execution reverted''
     \<or> str_includes (toLowerCase (error_shortMessage e)) ''execution reverted''"

definition mapApiFailure :: "int option \<Rightarrow> js_error \<Rightarrow> fallback_code" where
  "mapApiFailure statusCode e =
     (if statusCode = Some 404 then AGENT_NOT_FOUND
      else if statusCode = Some 402 then PAYMENT_UNAVAILABLE
      else if (case statusCode of Some c \<Rightarrow> c \<ge> 500 | None \<Rightarrow> False) then ORACLE_UNAVAILABLE
      else if isTimeoutError e then API_TIMEOUT
      else ORACLE_UNAVAILABLE)"

definition mapContractFailure :: "js_error \<Rightarrow> fallback_code" where
  "mapContractFailure e =
     (if isCallException e then AGENT_NOT_FOUND
      else if isTimeoutError e \<or> fallbacks_isRpcError e then RPC_UNAVAILABLE
      else ORACLE_UNAVAILABLE)"

subsection \<open>client.js\<close>

text \<open>
  A value handed to \<open>Number(\<dots>)\<close>: \<open>undefined\<close>, \<open>null\<close>, or a number (a value of another
  type is held by the number that \<open>Number\<close> makes of it). \<open>Number(null)\<close> is 0 and
  \<open>Number(undefined)\<close> is \<open>NaN\<close>. The result \<open>None\<close> of \<open>toNumber\<close> is \<open>null\<close>.
\<close>

datatype js_value = Undefined | Null | Num number

definition toNumber :: "js_value \<Rightarrow> number option" where
  "toNumber v =
     (let parsed = (case v of Undefined \<Rightarrow> NaN | Null \<Rightarrow> dbl 0 | Num r \<Rightarrow> r)
      in if \<not> Number_isFinite parsed then None else Some parsed)"

definition toNonNegativeNumber :: "js_value \<Rightarrow> number option" where
  "toNonNegativeNumber v =
     (case toNumber v of
        None \<Rightarrow> None
      | Some p \<Rightarrow> if js_lt p (dbl 0) then None else Some p)"

text \<open>A value that is a number or \<open>null\<close>, as \<open>toNumber\<close> returns it, seen as a value again.\<close>

definition as_value :: "number option \<Rightarrow> js_value" where
  "as_value v = (case v of None \<Rightarrow> Null | Some r \<Rightarrow> Num r)"

definition deriveConfidence :: "js_value \<Rightarrow> number \<Rightarrow> number option" where
  "deriveConfidence total_in threshold =
     (case toNonNegativeNumber total_in of
        None \<Rightarrow> None
      | Some tot \<Rightarrow>
          if js_le threshold (dbl 0) then Some (dbl 1)
          else clampConfidence (Some (js_div tot threshold)))"

text \<open>
  The \<open>data\<close> object of a response. The properties that are only passed through
  (\<open>recentTrend\<close>, \<open>note\<close>, \<open>meta\<close>) are left out; a property the object does not have is
  \<open>Undefined\<close>, \<open>None\<close> or the empty list.
\<close>

record response_data =
  data_totalFeedback :: js_value
  data_positiveFeedback :: js_value
  data_flagged :: "bool option"
  data_riskFactors :: "string list"
  data_negativeRateBps :: js_value
  data_lastUpdated :: js_value
  data_demo :: bool

text \<open>What \<open>queryApi\<close> and \<open>queryContract\<close> return.\<close>

record query_result =
  result_score :: js_value
  result_confidence :: js_value
  result_data :: response_data

text \<open>
  The response envelope. The clock readings \<open>timingMs\<close> and \<open>timestamp\<close> and the
  \<open>correlationId\<close> are left out.
\<close>

record envelope =
  r_status :: status
  r_agentId :: "string option"
  r_score :: "number option"
  r_confidence :: "number option"
  r_verdict :: verdict
  r_recommendation :: recommendation
  r_source :: source
  r_fallback :: "fallback_code option"
  r_error :: "(fallback_code \<times> string) option"
  r_data :: "response_data option"

text \<open>
  \<open>buildSuccessResponse\<close>, with \<open>status\<close>, \<open>fallback\<close> and \<open>error\<close> at their defaults, as its
  one caller leaves them.
\<close>

definition buildSuccessResponse ::
  "string \<Rightarrow> js_value \<Rightarrow> js_value \<Rightarrow> source \<Rightarrow> response_data \<Rightarrow> envelope" where
  "buildSuccessResponse agentId sc conf src dat =
     (let normalizedScore = toNonNegativeNumber sc;
          normalizedConfidence = clampConfidence (toNumber conf);
          hasNoHistory =
            (normalizedScore = Some (dbl 0)
             \<and> ((toNonNegativeNumber (data_totalFeedback dat) = Some (dbl 0)
                  \<and> toNonNegativeNumber (data_positiveFeedback dat) = Some (dbl 0))
                 \<or> normalizedConfidence = Some (dbl 0)));
          verd = (if hasNoHistory then UNKNOWN else resolveVerdict normalizedScore)
      in \<lparr> r_status = STATUS_OK, r_agentId = Some agentId, r_score = normalizedScore,
           r_confidence = normalizedConfidence, r_verdict = verd,
           r_recommendation = resolveRecommendation verd, r_source = src,
           r_fallback = None, r_error = None, r_data = Some dat \<rparr>)"

definition buildStructuredFailure ::
  "string option \<Rightarrow> source \<Rightarrow> fallback_code \<Rightarrow> status \<Rightarrow> string \<Rightarrow> envelope" where
  "buildStructuredFailure agentId src fb st msg =
     \<lparr> r_status = st, r_agentId = agentId, r_score = None, r_confidence = None,
       r_verdict = UNKNOWN, r_recommendation = MANUAL_REVIEW, r_source = src,
       r_fallback = Some fb,
       r_error = Some (fb, if msg \<noteq> [] then msg else fallback_text fb),
       r_data = None \<rparr>"

definition withDegradedContext :: "envelope \<Rightarrow> fallback_code \<Rightarrow> string \<Rightarrow> envelope" where
  "withDegradedContext response fallbackCode fallbackMessage =
     response
       \<lparr> r_status := STATUS_DEGRADED, r_fallback := Some fallbackCode,
         r_error := Some (fallbackCode,
           if fallbackMessage \<noteq> [] then fallbackMessage else fallback_text fallbackCode) \<rparr>"

record agentkit_config =
  baseUrl :: string
  defaultMode :: source
  allowDemoFallback :: bool
  allowOnchainFallback :: bool
  client_confidenceThresholdFeedbackCount :: number
  client_negativeFlagThresholdBps :: number

record query_options =
  opt_mode :: "source option"
  opt_allowDemoFallback :: "bool option"
  opt_allowOnchainFallback :: "bool option"

definition resolveSequence :: "source \<Rightarrow> agentkit_config \<Rightarrow> query_options \<Rightarrow> source list" where
  "resolveSequence baseMode config overrides =
     (let demo = (case opt_allowDemoFallback overrides of
                    Some b \<Rightarrow> b | None \<Rightarrow> allowDemoFallback config);
          onchain = (case opt_allowOnchainFallback overrides of
                       Some b \<Rightarrow> b | None \<Rightarrow> allowOnchainFallback config)
      in if baseMode = TRUSTSCORE_CONTRACT then [TRUSTSCORE_CONTRACT]
         else if baseMode = API_DEMO then
           [API_DEMO] @ (if onchain then [TRUSTSCORE_CONTRACT] else [])
         else [API_PAID] @ (if demo then [API_DEMO] else [])
                @ (if onchain then [TRUSTSCORE_CONTRACT] else []))"

text \<open>
  The tuple \<open>getDetailedReport\<close> returns, whose four counters are big integers, and the
  record \<open>parseDetailedRecord\<close> makes of it: \<open>Number\<close> of a big integer is the double
  nearest to it.
\<close>

record raw_record =
  raw_score :: nat
  raw_totalFeedback :: nat
  raw_positiveFeedback :: nat
  raw_lastUpdated :: nat
  raw_exists :: bool

record detailed_record =
  rec_score :: number
  rec_totalFeedback :: number
  rec_positiveFeedback :: number
  rec_lastUpdated :: number
  rec_exists :: bool

definition parseDetailedRecord :: "raw_record \<Rightarrow> detailed_record" where
  "parseDetailedRecord rawRecord =
     (let score = dbl (of_nat (raw_score rawRecord));
          totalFeedback = dbl (of_nat (raw_totalFeedback rawRecord));
          positiveFeedback = dbl (of_nat (raw_positiveFeedback rawRecord));
          lastUpdated = dbl (of_nat (raw_lastUpdated rawRecord))
      in \<lparr> rec_score = (if Number_isFinite score then score else dbl 0),
           rec_totalFeedback = (if Number_isFinite totalFeedback then totalFeedback else dbl 0),
           rec_positiveFeedback =
             (if Number_isFinite positiveFeedback then positiveFeedback else dbl 0),
           rec_lastUpdated = (if Number_isFinite lastUpdated then lastUpdated else dbl 0),
           rec_exists = raw_exists rawRecord \<rparr>)"

record report_analytics =
  an_negativeRateBps :: number
  an_flagged :: bool
  an_riskFactors :: "string list"

definition buildReportAnalytics :: "detailed_record \<Rightarrow> agentkit_config \<Rightarrow> report_analytics" where
  "buildReportAnalytics rcd config =
     (let tot = rec_totalFeedback rcd;
          positive = Math_max (dbl 0) (Math_min (rec_positiveFeedback rcd) tot);
          negative = Math_max (dbl 0) (js_sub tot positive);
          negativeRateBps =
            (if tot = dbl 0 then dbl 0
             else Math_round (js_mul (js_div negative tot) (dbl 10000)));
          flag = (js_gt tot (dbl 0)
                  \<and> js_gt negativeRateBps (client_negativeFlagThresholdBps config))
      in \<lparr> an_negativeRateBps = negativeRateBps, an_flagged = flag,
           an_riskFactors =
             (if js_lt tot (client_confidenceThresholdFeedbackCount config)
              then [''low_feedback_volume''] else [])
             @ (if flag then [''high_negative_feedback_ratio''] else [])
             @ (if js_lt (rec_score rcd) (dbl 500) then [''low_trust_score''] else []) \<rparr>)"

datatype query_kind = ScoreQuery | ReportQuery

text \<open>
  The JSON object an API response carries, by the properties the client reads. A property
  the object does not have is \<open>Undefined\<close>, \<open>None\<close> or the empty string. A property
  that goes through \<open>Number(\<dots>)\<close> is held by what \<open>Number\<close> makes of it (\<open>Num NaN\<close> for a
  value that converts to \<open>NaN\<close>), \<open>confidenceBand\<close> by its text, \<open>demo\<close> by its truth
  value, and \<open>error\<close>, \<open>details\<close> and \<open>message\<close> by their text.
\<close>

record api_body =
  body_score :: js_value
  body_confidence :: js_value
  body_confidenceBand :: "string option"
  body_totalFeedback :: js_value
  body_positiveFeedback :: js_value
  body_negativeRateBps :: js_value
  body_lastUpdated :: js_value
  body_flagged :: "bool option"
  body_riskFactors :: "string list option"
  body_demo :: bool
  body_error :: string
  body_details :: string
  body_message :: string

text \<open>
  An HTTP response: \<open>response.ok\<close>, \<open>response.status\<close>, and what \<open>parseJsonBody\<close>
  makes of its text, which is \<open>None\<close> for an empty text, for a text that is not JSON,
  and for a JSON value without properties.
\<close>

record http_response =
  response_ok :: bool
  response_status :: nat
  response_body :: "api_body option"

text \<open>
  The remote parties of one query: what \<open>fetch\<close> does with a URL (it returns a response
  or throws, an \<open>AbortError\<close> at the timeout); the paid fetcher, which the factory
  builds or fails to build; and what the contract reader's \<open>getDetailedReport(agentId)\<close>
  returns or throws.
\<close>

record remote =
  fetchImpl :: "string \<Rightarrow> js_error + http_response"
  paidFetch :: "js_error + (string \<Rightarrow> js_error + http_response)"
  getDetailedReport :: "nat \<Rightarrow> js_error + raw_record"

definition confidenceFromBand :: "string option \<Rightarrow> number option" where
  "confidenceFromBand band =
     (let normalized = toLowerCase (trim (case band of Some b \<Rightarrow> b | None \<Rightarrow> []))
      in if normalized = ''high'' then Some (dbl 1)
         else if normalized = ''low'' then Some (dbl (4 / 10))
         else if normalized = ''none'' then Some (dbl 0)
         else None)"

definition buildHttpError :: "nat \<Rightarrow> api_body option \<Rightarrow> js_error" where
  "buildHttpError statusCode body =
     (let fromBody =
            (case body of
               None \<Rightarrow> []
             | Some b \<Rightarrow>
                 if body_error b \<noteq> [] then body_error b
                 else if body_details b \<noteq> [] then body_details b
                 else body_message b);
          msg = (if fromBody \<noteq> [] then fromBody else ''HTTP '' @ decimal statusCode)
      in JsError ''Error'' NoCode msg [] (Some (int statusCode)) None None)"

definition requestJson :: "remote \<Rightarrow> string \<Rightarrow> bool \<Rightarrow> js_error + api_body option" where
  "requestJson rem url usePaid =
     (case (if usePaid then paidFetch rem else Inr (fetchImpl rem)) of
        Inl e \<Rightarrow> Inl e
      | Inr caller \<Rightarrow>
          (case caller url of
             Inl e \<Rightarrow> Inl e
           | Inr response \<Rightarrow>
               if \<not> response_ok response then
                 Inl (buildHttpError (response_status response) (response_body response))
               else Inr (response_body response)))"

text \<open>\<open>body?.property\<close>, and \<open>a ?? b\<close> on values that are a number or \<open>null\<close>.\<close>

definition property :: "(api_body \<Rightarrow> js_value) \<Rightarrow> api_body option \<Rightarrow> js_value" where
  "property f body = (case body of None \<Rightarrow> Undefined | Some b \<Rightarrow> f b)"

definition or_else :: "number option \<Rightarrow> number option \<Rightarrow> number option" where
  "or_else a b = (case a of None \<Rightarrow> b | Some v \<Rightarrow> Some v)"

definition queryContract ::
  "remote \<Rightarrow> agentkit_config \<Rightarrow> query_kind \<Rightarrow> string \<Rightarrow> js_error + query_result" where
  "queryContract rem config kind agentId =
     (case getDetailedReport rem (digits_value agentId) of
        Inl e \<Rightarrow> Inl e
      | Inr rawRecord \<Rightarrow>
          (let rcd = parseDetailedRecord rawRecord;
               analytics = buildReportAnalytics rcd config;
               confidence =
                 deriveConfidence (Num (rec_totalFeedback rcd))
                   (client_confidenceThresholdFeedbackCount config)
           in Inr
             (if kind = ScoreQuery then
                \<lparr> result_score = Num (rec_score rcd), result_confidence = as_value confidence,
                  result_data =
                    \<lparr> data_totalFeedback = Undefined, data_positiveFeedback = Undefined,
                      data_flagged = None, data_riskFactors = [],
                      data_negativeRateBps = Undefined,
                      data_lastUpdated = Num (rec_lastUpdated rcd), data_demo = False \<rparr> \<rparr>
              else
                \<lparr> result_score = Num (rec_score rcd), result_confidence = as_value confidence,
                  result_data =
                    \<lparr> data_totalFeedback = Num (rec_totalFeedback rcd),
                      data_positiveFeedback = Num (rec_positiveFeedback rcd),
                      data_flagged = Some (an_flagged analytics),
                      data_riskFactors = an_riskFactors analytics,
                      data_negativeRateBps = Num (an_negativeRateBps analytics),
                      data_lastUpdated = Num (rec_lastUpdated rcd), data_demo = False \<rparr> \<rparr>)))"

definition queryApi ::
  "remote \<Rightarrow> agentkit_config \<Rightarrow> query_kind \<Rightarrow> string \<Rightarrow> source
   \<Rightarrow> js_error + query_result" where
  "queryApi rem config kind agentId src =
     (let endpoint = (if kind = ScoreQuery then ''/score/'' else ''/report/'');
          querySuffix = (if src = API_DEMO then ''?demo=true'' else []);
          url = baseUrl config @ endpoint @ agentId @ querySuffix
      in case requestJson rem url (src = API_PAID) of
           Inl e \<Rightarrow> Inl e
         | Inr body \<Rightarrow>
             (let band = (case body of None \<Rightarrow> None | Some b \<Rightarrow> body_confidenceBand b);
                  lastUpdated =
                    (if property body_lastUpdated body = Undefined then Null
                     else property body_lastUpdated body);
                  demo = (case body of None \<Rightarrow> False | Some b \<Rightarrow> body_demo b)
              in if kind = ScoreQuery then
                   Inr \<lparr> result_score = as_value (toNonNegativeNumber (property body_score body)),
                         result_confidence =
                           as_value
                             (or_else (toNumber (property body_confidence body))
                                (or_else (confidenceFromBand band)
                                   (deriveConfidence (property body_totalFeedback body)
                                      (client_confidenceThresholdFeedbackCount config)))),
                         result_data =
                           \<lparr> data_totalFeedback = Undefined, data_positiveFeedback = Undefined,
                             data_flagged = None, data_riskFactors = [],
                             data_negativeRateBps = Undefined, data_lastUpdated = lastUpdated,
                             data_demo = demo \<rparr> \<rparr>
                 else
                   (let totalFeedback = toNonNegativeNumber (property body_totalFeedback body);
                        positiveFeedback =
                          toNonNegativeNumber (property body_positiveFeedback body)
                    in Inr
                      \<lparr> result_score = as_value (toNonNegativeNumber (property body_score body)),
                        result_confidence =
                          as_value
                            (or_else (toNumber (property body_confidence body))
                               (or_else (confidenceFromBand band)
                                  (deriveConfidence (as_value totalFeedback)
                                     (client_confidenceThresholdFeedbackCount config)))),
                        result_data =
                          \<lparr> data_totalFeedback = as_value totalFeedback,
                            data_positiveFeedback = as_value positiveFeedback,
                            data_flagged =
                              (case body of None \<Rightarrow> None | Some b \<Rightarrow> body_flagged b),
                            data_riskFactors =
                              (case body of
                                 None \<Rightarrow> []
                               | Some b \<Rightarrow>
                                   (case body_riskFactors b of None \<Rightarrow> [] | Some fs \<Rightarrow> fs)),
                            data_negativeRateBps =
                              as_value
                                (toNonNegativeNumber (property body_negativeRateBps body)),
                            data_lastUpdated = lastUpdated,
                            data_demo = demo \<rparr> \<rparr>)))"

text \<open>One attempt of the loop in \<open>queryTrust\<close>, and the classification of its failure.\<close>

definition attempt ::
  "remote \<Rightarrow> agentkit_config \<Rightarrow> query_kind \<Rightarrow> string \<Rightarrow> source \<Rightarrow> js_error + query_result" where
  "attempt rem config kind agentId src =
     (if src = TRUSTSCORE_CONTRACT then queryContract rem config kind agentId
      else queryApi rem config kind agentId src)"

definition classify :: "source \<Rightarrow> js_error \<Rightarrow> fallback_code" where
  "classify src e =
     (if src = TRUSTSCORE_CONTRACT then mapContractFailure e
      else mapApiFailure (error_statusCode e) e)"

text \<open>
  The loop over the source sequence, with \<open>priorFailure\<close> as its state. It returns the
  response of the first source that succeeds, or the last \<open>priorFailure\<close> when none does.
\<close>

datatype walk_result = Responded envelope | Exhausted "(fallback_code \<times> string) option"

fun try_sources ::
  "remote \<Rightarrow> agentkit_config \<Rightarrow> query_kind \<Rightarrow> string \<Rightarrow> source list
   \<Rightarrow> (fallback_code \<times> string) option \<Rightarrow> walk_result" where
  "try_sources rem config kind agentId [] priorFailure = Exhausted priorFailure"
| "try_sources rem config kind agentId (src # rest) priorFailure =
     (case attempt rem config kind agentId src of
        Inr result \<Rightarrow>
          (let response =
             buildSuccessResponse agentId (result_score result) (result_confidence result) src
               (result_data result)
           in case priorFailure of
                Some (code, msg) \<Rightarrow> Responded (withDegradedContext response code msg)
              | None \<Rightarrow> Responded response)
      | Inl e \<Rightarrow>
          try_sources rem config kind agentId rest (Some (classify src e, toErrorMessage e)))"

text \<open>
  \<open>queryTrust(kind, rawAgentId, options)\<close>. The raw identifier is the text
  \<open>String(rawAgentId)\<close>, or \<open>None\<close> when \<open>rawAgentId\<close> is \<open>null\<close> or \<open>undefined\<close> (whose
  text is not a string of digits).
\<close>

definition queryTrust ::
  "remote \<Rightarrow> agentkit_config \<Rightarrow> query_kind \<Rightarrow> string option \<Rightarrow> query_options \<Rightarrow> envelope" where
  "queryTrust rem config kind rawAgentId options =
     (let requestedMode = (case opt_mode options of Some m \<Rightarrow> m | None \<Rightarrow> defaultMode config);
          sequence = resolveSequence requestedMode config options
      in case parseAgentIdParam (case rawAgentId of Some s \<Rightarrow> s | None \<Rightarrow> ''undefined'') of
           Inl e \<Rightarrow>
             buildStructuredFailure rawAgentId (hd sequence) INVALID_AGENT_ID STATUS_ERROR
               (toErrorMessage e)
         | Inr parsed \<Rightarrow>
             (let agentId = decimal parsed in
              case try_sources rem config kind agentId sequence None of
                Responded response \<Rightarrow> response
              | Exhausted priorFailure \<Rightarrow>
                  (case priorFailure of
                     Some (code, msg) \<Rightarrow>
                       buildStructuredFailure (Some agentId) (last sequence) code
                         (if code = AGENT_NOT_FOUND then STATUS_ERROR else STATUS_DEGRADED)
                         (if msg \<noteq> [] then msg
                          else ''No available trust data source succeeded'')
                   | None \<Rightarrow>
                       buildStructuredFailure (Some agentId) (last sequence) ORACLE_UNAVAILABLE
                         STATUS_DEGRADED ''No available trust data source succeeded'')))"

section \<open>Indexer (server/indexer.js)\<close>

subsection \<open>Transient RPC errors\<close>

definition knownCodes :: "string list" where
  "knownCodes =
     [''NETWORK_ERROR'', ''SERVER_ERROR'', ''TIMEOUT'', ''ECONNRESET'', ''ETIMEDOUT'',
      ''ENOTFOUND'']"

definition retryHints :: "string list" where
  "retryHints =
     [''timeout'', ''timed out'', ''429'', ''rate limit'', ''network error'',
      ''missing response'', ''temporarily unavailable'', ''socket hang up'',
      ''gateway timeout'']"

text \<open>
  \<open>isRpcError\<close> on an error object (on a falsy argument the source returns \<open>false\<close>). An
  error object is a finite tree here, so the source's tests \<open>error.error !== error\<close> and
  \<open>error.cause !== error\<close> hold.
\<close>

fun isRpcError :: "js_error \<Rightarrow> bool" where
  "isRpcError (JsError nm code msg shortMsg statusCode inner cause) =
     (if (case code of NumCode c \<Rightarrow> c = - 32000 \<or> c = - 32005 \<or> c = - 32603 | _ \<Rightarrow> False)
      then True
      else if (case code of StrCode s \<Rightarrow> s \<in> set knownCodes | _ \<Rightarrow> False) then True
      else if list_ex (\<lambda>token. str_includes (toLowerCase (msg @ '' '' @ shortMsg)) token)
                retryHints
      then True
      else case inner of
             Some e \<Rightarrow> isRpcError e
           | None \<Rightarrow> (case cause of Some e \<Rightarrow> isRpcError e | None \<Rightarrow> False))"

text \<open>
  The errors \<open>isRpcError\<close> visits: the error, then the chain through \<open>error\<close> where that is
  present and through \<open>cause\<close> otherwise.
\<close>

fun error_chain :: "js_error \<Rightarrow> js_error list" where
  "error_chain (JsError nm code msg shortMsg statusCode inner cause) =
     JsError nm code msg shortMsg statusCode inner cause
     # (case inner of
          Some e \<Rightarrow> error_chain e
        | None \<Rightarrow> (case cause of Some e \<Rightarrow> error_chain e | None \<Rightarrow> []))"

subsection \<open>The retry harness\<close>

text \<open>
  \<open>withExponentialBackoff\<close>. The operation is given by what its successive calls do:
  \<open>operation k\<close> is the outcome of call number \<open>k + 1\<close>. The loop has no bound when
  \<open>maxRetries\<close> is infinite (\<open>None\<close>), so it runs on fuel, and \<open>None\<close> is a loop still
  retrying when the fuel is used up. The sleep between two attempts, and the \<open>onRetry\<close>
  hook that only logs, are left out.
\<close>

fun withExponentialBackoff ::
  "nat \<Rightarrow> (js_error \<Rightarrow> bool) \<Rightarrow> nat option \<Rightarrow> (nat \<Rightarrow> js_error + 'a) \<Rightarrow> nat
   \<Rightarrow> (js_error + 'a) option" where
  "withExponentialBackoff 0 isRetryable maxRetries operation attempts = None"
| "withExponentialBackoff (Suc fuel) isRetryable maxRetries operation attempts =
     (case operation attempts of
        Inr v \<Rightarrow> Some (Inr v)
      | Inl e \<Rightarrow>
          if \<not> isRetryable e then Some (Inl e)
          else if (case maxRetries of Some m \<Rightarrow> attempts \<ge> m | None \<Rightarrow> False) then Some (Inl e)
          else withExponentialBackoff fuel isRetryable maxRetries operation (attempts + 1))"

text \<open>The \<open>rpcCall\<close> of \<open>runIndexerCycle\<close>: unbounded retries of transient errors.\<close>

definition rpcCall :: "nat \<Rightarrow> (nat \<Rightarrow> js_error + 'a) \<Rightarrow> (js_error + 'a) option" where
  "rpcCall fuel operation = withExponentialBackoff fuel isRpcError None operation 0"

text \<open>Sequencing of awaited steps: a step that throws or does not return ends the sequence.\<close>

definition and_then ::
  "(js_error + 'a) option \<Rightarrow> ('a \<Rightarrow> (js_error + 'b) option) \<Rightarrow> (js_error + 'b) option" where
  "and_then m f =
     (case m of
        None \<Rightarrow> None
      | Some (Inl e) \<Rightarrow> Some (Inl e)
      | Some (Inr v) \<Rightarrow> f v)"

subsection \<open>Checkpoints\<close>

text \<open>
  An agent identifier as the checkpoint and the logs carry it, by what \<open>BigInt(value)\<close> does
  with it: it yields an integer or it throws. The decimal string that
  \<open>normalizeAgentIdString\<close> returns is represented by the natural number it spells.
\<close>

datatype raw_id = BigIntOf int | NotBigInt

definition normalizeAgentIdString :: "raw_id \<Rightarrow> nat option" where
  "normalizeAgentIdString v =
     (case v of
        NotBigInt \<Rightarrow> None
      | BigIntOf asBigInt \<Rightarrow> if asBigInt < 0 then None else Some (nat asBigInt))"

text \<open>
  Block numbers are natural numbers. The source holds them in numbers, which it compares,
  copies and increments by one; that is exact below \<open>2^53\<close>, where the block numbers of a
  chain are. The number that a checkpoint value holds as \<open>lastProcessedBlock\<close> is likewise
  kept by its exact value, a rational, and \<open>isInteger\<close> is \<open>Number.isInteger\<close> on it.
\<close>

definition isInteger :: "rat \<Rightarrow> bool" where
  "isInteger x \<longleftrightarrow> of_int \<lfloor>x\<rfloor> = x"

text \<open>
  The value handed to \<open>normalizeCheckpoint\<close>: \<open>lastProcessedBlock\<close> when it is a finite
  number (\<open>None\<close> for anything else), and the entries of the array \<open>pendingAgentIds\<close> (none
  when the property is missing).
\<close>

record raw_checkpoint =
  raw_lastProcessedBlock :: "rat option"
  raw_pendingAgentIds :: "raw_id list"

record checkpoint =
  lastProcessedBlock :: "nat option"
  pendingAgentIds :: "nat list"

text \<open>The loop of \<open>normalizeCheckpoint\<close>, with the set \<open>seen\<close> and the list built so far.\<close>

fun collect_pending :: "raw_id list \<Rightarrow> nat set \<Rightarrow> nat list \<Rightarrow> nat list" where
  "collect_pending [] seen pending = pending"
| "collect_pending (v # ids) seen pending =
     (case normalizeAgentIdString v of
        None \<Rightarrow> collect_pending ids seen pending
      | Some normalized \<Rightarrow>
          if normalized \<in> seen then collect_pending ids seen pending
          else collect_pending ids (insert normalized seen) (pending @ [normalized]))"

definition normalizeCheckpoint :: "raw_checkpoint \<Rightarrow> checkpoint" where
  "normalizeCheckpoint raw =
     \<lparr> lastProcessedBlock =
         (case raw_lastProcessedBlock raw of
            Some b \<Rightarrow> if isInteger b \<and> b \<ge> 0 then Some (nat \<lfloor>b\<rfloor>) else None
          | None \<Rightarrow> None),
       pendingAgentIds = collect_pending (raw_pendingAgentIds raw) {} [] \<rparr>"

text \<open>
  The file system: what \<open>readFile\<close> does on each path. A file holds a text that
  \<open>JSON.parse\<close> rejects, or the JSON of a checkpoint value; \<open>JSON.parse\<close> of
  \<open>JSON.stringify\<close> of a normalised checkpoint is that checkpoint again, as a value.
\<close>

datatype file_content = Unparsable | Holds raw_checkpoint

type_synonym files = "string \<Rightarrow> js_error + file_content"

definition ENOENT :: js_error where
  "ENOENT =
     JsError ''Error'' (StrCode ''ENOENT'') ''ENOENT: no such file or directory'' [] None None
       None"

definition SyntaxError :: js_error where
  "SyntaxError = JsError ''SyntaxError'' NoCode ''Unexpected token in JSON'' [] None None None"

definition loadCheckpoint :: "files \<Rightarrow> string \<Rightarrow> js_error + checkpoint" where
  "loadCheckpoint fs checkpointPath =
     (case fs checkpointPath of
        Inr (Holds raw) \<Rightarrow> Inr (normalizeCheckpoint raw)
      | Inr Unparsable \<Rightarrow> Inl SyntaxError
      | Inl e \<Rightarrow>
          if error_code e = StrCode ''ENOENT''
          then Inr \<lparr> lastProcessedBlock = None, pendingAgentIds = [] \<rparr>
          else Inl e)"

text \<open>A normalised checkpoint as the value its JSON text parses to.\<close>

definition as_json :: "checkpoint \<Rightarrow> raw_checkpoint" where
  "as_json c =
     \<lparr> raw_lastProcessedBlock = map_option of_nat (lastProcessedBlock c),
       raw_pendingAgentIds = map (\<lambda>n. BigIntOf (int n)) (pendingAgentIds c) \<rparr>"

text \<open>
  \<open>saveCheckpoint\<close>: \<open>mkdir\<close>, \<open>writeFile\<close> of the temporary file, \<open>rename\<close>. Each of the three
  may throw; \<open>disk\<close> says which does.
\<close>

datatype fs_op = Mkdir | WriteFile | Rename

definition saveCheckpoint ::
  "(fs_op \<Rightarrow> js_error option) \<Rightarrow> files \<Rightarrow> string \<Rightarrow> raw_checkpoint
   \<Rightarrow> (js_error + unit) \<times> files" where
  "saveCheckpoint disk fs checkpointPath c =
     (let normalized = normalizeCheckpoint c;
          tmpPath = checkpointPath @ ''.tmp''
      in case disk Mkdir of
           Some e \<Rightarrow> (Inl e, fs)
         | None \<Rightarrow>
             (case disk WriteFile of
                Some e \<Rightarrow> (Inl e, fs)
              | None \<Rightarrow>
                  (let written = fs(tmpPath := Inr (Holds (as_json normalized))) in
                   case disk Rename of
                     Some e \<Rightarrow> (Inl e, written)
                   | None \<Rightarrow>
                       (Inr (), written(checkpointPath := written tmpPath, tmpPath := Inl ENOENT)))))"

definition no_faults :: "fs_op \<Rightarrow> js_error option" where
  "no_faults op = None"

subsection \<open>Feedback logs\<close>

record feedback_log =
  arg_agentId :: raw_id
  arg_clientAddress :: string
  arg_feedbackIndex :: nat
  arg_value :: int
  arg_valueDecimals :: nat
  arg_tag1 :: string
  arg_tag2 :: string
  arg_endpoint :: string
  arg_feedbackURI :: string
  arg_feedbackHash :: string
  log_blockNumber :: nat
  log_transactionHash :: string
  log_index :: nat

text \<open>\<open>String(n || "")\<close> for a number or big integer: the empty string for zero.\<close>

definition text_or_empty :: "nat \<Rightarrow> string" where
  "text_or_empty n = (if n = 0 then [] else decimal n)"

definition int_text_or_empty :: "int \<Rightarrow> string" where
  "int_text_or_empty i =
     (if i = 0 then [] else if i < 0 then CHR ''-'' # decimal (nat (- i)) else decimal (nat i))"

fun join_bar :: "string list \<Rightarrow> string" where
  "join_bar [] = []"
| "join_bar [s] = s"
| "join_bar (s # t # ss) = s @ ''|'' @ join_bar (t # ss)"

definition feedbackDedupKey :: "feedback_log \<Rightarrow> string" where
  "feedbackDedupKey lg =
     join_bar
       [case normalizeAgentIdString (arg_agentId lg) of Some n \<Rightarrow> decimal n | None \<Rightarrow> [],
        arg_clientAddress lg,
        text_or_empty (arg_feedbackIndex lg),
        int_text_or_empty (arg_value lg),
        text_or_empty (arg_valueDecimals lg),
        arg_tag1 lg,
        arg_tag2 lg,
        arg_endpoint lg,
        arg_feedbackURI lg,
        arg_feedbackHash lg,
        text_or_empty (log_blockNumber lg),
        log_transactionHash lg]"

text \<open>The sort of \<open>Array.prototype.sort\<close> is stable, as \<open>sort_key\<close> is.\<close>

definition sortLogs :: "feedback_log list \<Rightarrow> feedback_log list" where
  "sortLogs logs = sort_key (\<lambda>lg. (log_blockNumber lg, log_index lg)) logs"

fun dedupe_loop :: "feedback_log list \<Rightarrow> string set \<Rightarrow> feedback_log list \<Rightarrow> feedback_log list" where
  "dedupe_loop [] seen deduped = deduped"
| "dedupe_loop (lg # logs) seen deduped =
     (if feedbackDedupKey lg \<in> seen then dedupe_loop logs seen deduped
      else dedupe_loop logs (insert (feedbackDedupKey lg) seen) (deduped @ [lg]))"

definition dedupeLogs :: "feedback_log list \<Rightarrow> feedback_log list" where
  "dedupeLogs logs = sortLogs (dedupe_loop logs {} [])"

text \<open>
  The chain, by what each call of the provider, of the registry and of the score
  contract does at its successive attempts. \<open>queryFilter\<close> takes the event, the agent the
  filter names (if any) and the block range; \<open>getBlock\<close> yields the timestamp of the block
  in seconds, or \<open>None\<close> for no block.
\<close>

datatype event_name = FeedbackPosted | NewFeedback

record chain =
  getBlockNumber :: "nat \<Rightarrow> js_error + nat"
  queryFilter :: "event_name \<Rightarrow> nat option \<Rightarrow> nat \<Rightarrow> nat \<Rightarrow> nat \<Rightarrow> js_error + feedback_log list"
  getBlock :: "nat \<Rightarrow> nat \<Rightarrow> js_error + nat option"
  batchUpdateScores ::
    "nat list \<Rightarrow> int list \<Rightarrow> int list \<Rightarrow> int list \<Rightarrow> nat \<Rightarrow> js_error + string"
  wait_receipt :: "string \<Rightarrow> nat \<Rightarrow> js_error + unit"

definition queryFeedbackLogs ::
  "nat \<Rightarrow> chain \<Rightarrow> nat \<Rightarrow> nat \<Rightarrow> (js_error + feedback_log list) option" where
  "queryFeedbackLogs fuel ch fromBlock toBlock =
     (if fromBlock > toBlock then Some (Inr [])
      else
        and_then (rpcCall fuel (queryFilter ch FeedbackPosted None fromBlock toBlock))
          (\<lambda>posted.
             and_then (rpcCall fuel (queryFilter ch NewFeedback None fromBlock toBlock))
               (\<lambda>new. Some (Inr (dedupeLogs (posted @ new))))))"

definition queryFeedbackLogsForAgent ::
  "nat \<Rightarrow> chain \<Rightarrow> nat \<Rightarrow> nat \<Rightarrow> nat \<Rightarrow> (js_error + feedback_log list) option" where
  "queryFeedbackLogsForAgent fuel ch agentId fromBlock toBlock =
     (if fromBlock > toBlock then Some (Inr [])
      else
        and_then (rpcCall fuel (queryFilter ch FeedbackPosted (Some agentId) fromBlock toBlock))
          (\<lambda>posted.
             and_then
               (rpcCall fuel (queryFilter ch NewFeedback (Some agentId) fromBlock toBlock))
               (\<lambda>new. Some (Inr (dedupeLogs (posted @ new))))))"

text \<open>
  The loop of \<open>collectFeedbackForAgent\<close>, with the block timestamp cache (in milliseconds)
  and the entries collected so far. The timestamp of a block is the number
  \<open>Number(block.timestamp) * 1000\<close>.
\<close>

fun collect_entries ::
  "nat \<Rightarrow> chain \<Rightarrow> feedback_log list \<Rightarrow> (nat \<rightharpoonup> number) \<Rightarrow> feedback list
   \<Rightarrow> (js_error + feedback list \<times> (nat \<rightharpoonup> number)) option" where
  "collect_entries fuel ch [] cache collected = Some (Inr (collected, cache))"
| "collect_entries fuel ch (lg # logs) cache collected =
     and_then
       (case cache (log_blockNumber lg) of
          Some ms \<Rightarrow> Some (Inr (ms, cache))
        | None \<Rightarrow>
            and_then (rpcCall fuel (getBlock ch (log_blockNumber lg)))
              (\<lambda>block.
                 case block of
                   None \<Rightarrow>
                     Some (Inl (Error (''Missing block '' @ decimal (log_blockNumber lg)
                       @ '' while processing feedback logs'')))
                 | Some seconds \<Rightarrow>
                     Some (Inr (js_mul (dbl (of_nat seconds)) (dbl 1000),
                       cache(log_blockNumber lg \<mapsto>
                         js_mul (dbl (of_nat seconds)) (dbl 1000))))))
       (\<lambda>(ms, cache').
          collect_entries fuel ch logs cache' (collected @ [entry (arg_value lg > 0) ms]))"

definition collectFeedbackForAgent ::
  "nat \<Rightarrow> chain \<Rightarrow> nat \<Rightarrow> nat \<Rightarrow> nat \<Rightarrow> (nat \<rightharpoonup> number)
   \<Rightarrow> (js_error + feedback list \<times> (nat \<rightharpoonup> number)) option" where
  "collectFeedbackForAgent fuel ch agentId fromBlock toBlock cache =
     and_then (queryFeedbackLogsForAgent fuel ch agentId fromBlock toBlock)
       (\<lambda>logs. collect_entries fuel ch logs cache [])"

subsection \<open>The indexer cycle\<close>

definition DEFAULT_CHECKPOINT_PATH :: string where
  "DEFAULT_CHECKPOINT_PATH = ''server/.indexer-checkpoint.json''"

definition DEFAULT_MAX_BATCH_SIZE :: number where
  "DEFAULT_MAX_BATCH_SIZE = dbl 100"

text \<open>
  The argument \<open>parsed\<close> is \<open>Number(value)\<close>. The \<open>toPositiveInt\<close> of the indexer is, word
  for word, the one of scoring.js.
\<close>

definition toNonNegativeInt :: "number \<Rightarrow> number \<Rightarrow> number" where
  "toNonNegativeInt parsed fallback =
     (if Number_isInteger parsed \<and> js_ge parsed (dbl 0) then parsed else fallback)"

text \<open>The natural number that a number with a non-negative integral value denotes.\<close>

definition block_number :: "number \<Rightarrow> nat" where
  "block_number x = (case x of Finite d \<Rightarrow> nat \<lfloor>val d\<rfloor> | _ \<Rightarrow> 0)"

text \<open>
  The configuration of a cycle after the environment and the overrides are merged: whether
  a signer is given, the updater key, the two addresses, the checkpoint path, and the
  numeric settings as \<open>Number(\<dots>)\<close> reads them.
\<close>

record indexer_settings =
  has_updaterSigner :: bool
  updaterPrivateKey :: string
  trustScoreAddress :: string
  reputationRegistryAddress :: string
  checkpointPath :: string
  startBlock :: number
  maxBatchSize :: number
  scoringConfig :: config_input

record runtime_config =
  run_checkpointPath :: string
  run_startBlock :: nat
  run_maxBatchSize :: nat
  run_scoringConfig :: scoring_config

text \<open>\<open>config.checkpointPath || DEFAULT_CHECKPOINT_PATH\<close>.\<close>

definition checkpoint_file :: "indexer_settings \<Rightarrow> string" where
  "checkpoint_file config =
     (if checkpointPath config \<noteq> [] then checkpointPath config else DEFAULT_CHECKPOINT_PATH)"

definition resolveRuntimeConfig :: "indexer_settings \<Rightarrow> js_error + runtime_config" where
  "resolveRuntimeConfig config =
     (if \<not> has_updaterSigner config \<and> updaterPrivateKey config = [] then
        Inl (Error
          ''Missing updater signer configuration (UPDATER_PRIVATE_KEY or updaterSigner)'')
      else if trustScoreAddress config = [] then
        Inl (Error ''Missing trustScoreAddress / TRUST_SCORE_ADDRESS'')
      else if reputationRegistryAddress config = [] then
        Inl (Error ''Missing reputationRegistryAddress / REPUTATION_REGISTRY_ADDRESS'')
      else
        Inr \<lparr> run_checkpointPath = checkpoint_file config,
              run_startBlock = block_number (toNonNegativeInt (startBlock config) (dbl 0)),
              run_maxBatchSize =
                block_number (toPositiveInt (maxBatchSize config) DEFAULT_MAX_BATCH_SIZE),
              run_scoringConfig = normalizeConfig (scoringConfig config) \<rparr>)"

text \<open>
  The set \<open>dirtyAgentIds\<close>, as the list of its members in insertion order: the pending
  identifiers of the checkpoint, then the agents of the new logs.
\<close>

definition set_add :: "nat list \<Rightarrow> nat \<Rightarrow> nat list" where
  "set_add members x = (if x \<in> set members then members else members @ [x])"

definition dirtyAgentIds :: "checkpoint \<Rightarrow> feedback_log list \<Rightarrow> nat list" where
  "dirtyAgentIds cp newlyObservedLogs =
     foldl
       (\<lambda>dirty lg.
          case normalizeAgentIdString (arg_agentId lg) of
            Some normalized \<Rightarrow> set_add dirty normalized
          | None \<Rightarrow> dirty)
       (foldl set_add [] (pendingAgentIds cp)) newlyObservedLogs"

text \<open>
  The comparator \<open>(a, b) => (a < b ? -1 : 1)\<close> orders the members, which are distinct,
  ascending.
\<close>

definition sortedDirtyAgents :: "checkpoint \<Rightarrow> feedback_log list \<Rightarrow> nat list" where
  "sortedDirtyAgents cp newlyObservedLogs = sort (dirtyAgentIds cp newlyObservedLogs)"

record batch =
  agentIds :: "nat list"
  scores :: "int list"
  totals :: "int list"
  positives :: "int list"

text \<open>
  \<open>BigInt(x)\<close> on a number: the integer the number denotes, and a \<open>RangeError\<close> when the
  number is not an integer (the engine's message names the number).
\<close>

definition RangeError :: js_error where
  "RangeError =
     JsError ''RangeError'' NoCode
       ''The number cannot be converted to a BigInt because it is not an integer'' [] None
       None None"

definition BigInt :: "number \<Rightarrow> js_error + int" where
  "BigInt x =
     (case x of
        Finite d \<Rightarrow> if of_int \<lfloor>val d\<rfloor> = val d then Inr \<lfloor>val d\<rfloor> else Inl RangeError
      | _ \<Rightarrow> Inl RangeError)"

text \<open>The loop over \<open>agentsToProcess\<close>, with the timestamp cache and the four arrays.\<close>

fun score_agents ::
  "nat \<Rightarrow> chain \<Rightarrow> runtime_config \<Rightarrow> nat \<Rightarrow> number \<Rightarrow> nat list \<Rightarrow> (nat \<rightharpoonup> number) \<Rightarrow> batch
   \<Rightarrow> (js_error + batch) option" where
  "score_agents fuel ch config latestBlock nowMs [] cache b = Some (Inr b)"
| "score_agents fuel ch config latestBlock nowMs (agentId # rest) cache b =
     and_then
       (collectFeedbackForAgent fuel ch agentId (run_startBlock config) latestBlock cache)
       (\<lambda>(feedbackEntries, cache').
          case scoreFeedbackDetailed feedbackEntries
                 (config_as_input (run_scoringConfig config)) nowMs of
            Inl e \<Rightarrow> Some (Inl e)
          | Inr details \<Rightarrow>
              (case BigInt (score details) of
                 Inl e \<Rightarrow> Some (Inl e)
               | Inr sc \<Rightarrow>
                   (case BigInt (totalFeedback details) of
                      Inl e \<Rightarrow> Some (Inl e)
                    | Inr tot \<Rightarrow>
                        (case BigInt (positiveFeedback details) of
                           Inl e \<Rightarrow> Some (Inl e)
                         | Inr pos \<Rightarrow>
                             score_agents fuel ch config latestBlock nowMs rest cache'
                               \<lparr> agentIds = agentIds b @ [agentId],
                                 scores = scores b @ [sc],
                                 totals = totals b @ [tot],
                                 positives = positives b @ [pos] \<rparr>))))"

text \<open>Step 6: one \<open>batchUpdateScores\<close> transaction and its receipt, when there is an agent.\<close>

definition submit_batch :: "nat \<Rightarrow> chain \<Rightarrow> batch \<Rightarrow> (js_error + string list) option" where
  "submit_batch fuel ch b =
     (if agentIds b \<noteq> [] then
        and_then
          (rpcCall fuel (batchUpdateScores ch (agentIds b) (scores b) (totals b) (positives b)))
          (\<lambda>tx. and_then (rpcCall fuel (wait_receipt ch tx)) (\<lambda>receipt. Some (Inr [tx])))
      else Some (Inr []))"

record cycle_report =
  fromBlock :: nat
  latestBlock :: nat
  newEventCount :: nat
  dirtyAgentCount :: nat
  processedAgentCount :: nat
  queuedAgentCount :: nat
  processedAgentIds :: "nat list"
  queuedAgentIds :: "nat list"
  txHashes :: "string list"

text \<open>
  Steps 1 to 3 after the checkpoint is loaded: the first block to scan, the chain head,
  and the feedback logs of the range between them.
\<close>

definition first_block :: "runtime_config \<Rightarrow> checkpoint \<Rightarrow> nat" where
  "first_block config cp =
     (let baselineLastProcessed =
            (case lastProcessedBlock cp of
               Some b \<Rightarrow> b
             | None \<Rightarrow> max (run_startBlock config - 1) 0)
      in baselineLastProcessed + 1)"

definition observe_chain ::
  "nat \<Rightarrow> runtime_config \<Rightarrow> chain \<Rightarrow> checkpoint
   \<Rightarrow> (js_error + nat \<times> feedback_log list) option" where
  "observe_chain fuel config ch cp =
     and_then (rpcCall fuel (getBlockNumber ch))
       (\<lambda>latest.
          and_then
            (if first_block config cp \<le> latest
             then queryFeedbackLogs fuel ch (first_block config cp) latest
             else Some (Inr []))
            (\<lambda>newlyObservedLogs. Some (Inr (latest, newlyObservedLogs))))"

text \<open>
  The cycle up to and including step 6, for a checkpoint already loaded: it reads the
  chain, scores the agents of the batch and submits the batch, and returns the report of
  the cycle.
\<close>

definition scan_and_update ::
  "nat \<Rightarrow> runtime_config \<Rightarrow> number \<Rightarrow> chain \<Rightarrow> checkpoint \<Rightarrow> (js_error + cycle_report) option" where
  "scan_and_update fuel config nowMs ch cp =
     and_then (observe_chain fuel config ch cp)
       (\<lambda>(latest, newlyObservedLogs).
          let sorted = sortedDirtyAgents cp newlyObservedLogs;
              agentsToProcess = take (run_maxBatchSize config) sorted;
              queued = drop (run_maxBatchSize config) sorted
          in and_then
               (score_agents fuel ch config latest nowMs agentsToProcess Map.empty
                  \<lparr> agentIds = [], scores = [], totals = [], positives = [] \<rparr>)
               (\<lambda>b.
                  and_then (submit_batch fuel ch b)
                    (\<lambda>hashes.
                       Some (Inr
                         \<lparr> fromBlock = first_block config cp, latestBlock = latest,
                           newEventCount = length newlyObservedLogs,
                           dirtyAgentCount = length sorted,
                           processedAgentCount = length (agentIds b),
                           queuedAgentCount = length queued,
                           processedAgentIds = agentIds b,
                           queuedAgentIds = queued,
                           txHashes = hashes \<rparr>))))"

text \<open>
  \<open>runIndexerCycle\<close>: the outcome of the cycle (\<open>None\<close> while an RPC call is still being
  retried) and the file system it leaves. Only step 7, \<open>saveCheckpoint\<close>, writes.
\<close>

definition runIndexerCycle ::
  "nat \<Rightarrow> indexer_settings \<Rightarrow> number \<Rightarrow> chain \<Rightarrow> (fs_op \<Rightarrow> js_error option) \<Rightarrow> files
   \<Rightarrow> (js_error + cycle_report) option \<times> files" where
  "runIndexerCycle fuel settings nowMs ch disk fs =
     (case resolveRuntimeConfig settings of
        Inl e \<Rightarrow> (Some (Inl e), fs)
      | Inr config \<Rightarrow>
          (case loadCheckpoint fs (run_checkpointPath config) of
             Inl e \<Rightarrow> (Some (Inl e), fs)
           | Inr cp \<Rightarrow>
               (case scan_and_update fuel config nowMs ch cp of
                  None \<Rightarrow> (None, fs)
                | Some (Inl e) \<Rightarrow> (Some (Inl e), fs)
                | Some (Inr report) \<Rightarrow>
                    (case saveCheckpoint disk fs (run_checkpointPath config)
                            \<lparr> raw_lastProcessedBlock = Some (of_nat (latestBlock report)),
                              raw_pendingAgentIds =
                                map (\<lambda>n. BigIntOf (int n)) (queuedAgentIds report) \<rparr> of
                       (Inl e, fs') \<Rightarrow> (Some (Inl e), fs')
                     | (Inr u, fs') \<Rightarrow> (Some (Inr report), fs')))))"

section \<open>The verdict rule and the transient marks in the words of the specification\<close>

text \<open>
  The verdict as the specification words it, over the fields of an envelope: \<open>UNKNOWN\<close>
  for no score, the no-history case for a score of 0, and the score table otherwise. In
  \<open>claimed_verdict\<close> a feedback counter has to be the number 0; in \<open>verdict_rule\<close> a counter
  that is \<open>null\<close> counts as 0 as well.
\<close>

definition claimed_verdict ::
  "number option \<Rightarrow> js_value \<Rightarrow> js_value \<Rightarrow> number option \<Rightarrow> verdict" where
  "claimed_verdict sc tf pf conf =
     (case sc of
        None \<Rightarrow> UNKNOWN
      | Some s \<Rightarrow>
          if s = dbl 0 \<and> ((tf = Num (dbl 0) \<and> pf = Num (dbl 0)) \<or> conf = Some (dbl 0))
          then UNKNOWN
          else if js_gt s (dbl 700) then TRUSTED
          else if js_ge s (dbl 400) then CAUTION
          else DANGEROUS)"

definition verdict_rule ::
  "number option \<Rightarrow> js_value \<Rightarrow> js_value \<Rightarrow> number option \<Rightarrow> verdict" where
  "verdict_rule sc tf pf conf =
     (case sc of
        None \<Rightarrow> UNKNOWN
      | Some s \<Rightarrow>
          if s = dbl 0
             \<and> ((tf \<in> {Num (dbl 0), Null} \<and> pf \<in> {Num (dbl 0), Null})
                  \<or> conf = Some (dbl 0))
          then UNKNOWN
          else if js_gt s (dbl 700) then TRUSTED
          else if js_ge s (dbl 400) then CAUTION
          else DANGEROUS)"

definition recommendation_table :: "verdict \<Rightarrow> recommendation" where
  "recommendation_table v =
     (case v of
        TRUSTED \<Rightarrow> PROCEED
      | CAUTION \<Rightarrow> MANUAL_REVIEW
      | UNKNOWN \<Rightarrow> MANUAL_REVIEW
      | DANGEROUS \<Rightarrow> ABORT)"

text \<open>
  The marks of a transient error on one error object. \<open>claimed_mark\<close> searches the
  \<open>message\<close>, and \<open>claimed_isRpcError\<close> looks at the error and at its \<open>cause\<close>, one level
  deep. \<open>has_retry_mark\<close> searches the text \<open>message + " " + shortMessage\<close>.
\<close>

definition claimed_mark :: "js_error \<Rightarrow> bool" where
  "claimed_mark e \<longleftrightarrow>
     error_code e \<in> {NumCode (- 32000), NumCode (- 32005), NumCode (- 32603)}
     \<or> error_code e \<in> StrCode ` set knownCodes
     \<or> list_ex (\<lambda>token. str_includes (toLowerCase (error_message e)) token) retryHints"

definition claimed_isRpcError :: "js_error \<Rightarrow> bool" where
  "claimed_isRpcError e \<longleftrightarrow>
     claimed_mark e \<or> (case error_cause e of Some c \<Rightarrow> claimed_mark c | None \<Rightarrow> False)"

definition has_retry_mark :: "js_error \<Rightarrow> bool" where
  "has_retry_mark e \<longleftrightarrow>
     error_code e \<in> {NumCode (- 32000), NumCode (- 32005), NumCode (- 32603)}
     \<or> error_code e \<in> StrCode ` set knownCodes
     \<or> list_ex
          (\<lambda>token.
             str_includes (toLowerCase (error_message e @ '' '' @ error_shortMessage e)) token)
          retryHints"

section \<open>Scenario inputs\<close>

subsection \<open>Inputs of the client and classifier scenarios\<close>

text \<open>The error \<open>buildHttpError\<close> makes of a status and a message of the body.\<close>

definition http_error :: "int \<Rightarrow> string \<Rightarrow> js_error" where
  "http_error statusCode msg = JsError ''Error'' NoCode msg [] (Some statusCode) None None"

definition client_defaults :: agentkit_config where
  "client_defaults =
     \<lparr> baseUrl = ''https://robomoustach.io'', defaultMode = API_PAID,
       allowDemoFallback = True, allowOnchainFallback = True,
       client_confidenceThresholdFeedbackCount = dbl 50,
       client_negativeFlagThresholdBps = dbl 2000 \<rparr>"

definition no_options :: query_options where
  "no_options =
     \<lparr> opt_mode = None, opt_allowDemoFallback = None, opt_allowOnchainFallback = None \<rparr>"

text \<open>A JSON object without any of the properties, and one with only an \<open>error\<close>.\<close>

definition empty_body :: api_body where
  "empty_body =
     \<lparr> body_score = Undefined, body_confidence = Undefined, body_confidenceBand = None,
       body_totalFeedback = Undefined, body_positiveFeedback = Undefined,
       body_negativeRateBps = Undefined, body_lastUpdated = Undefined, body_flagged = None,
       body_riskFactors = None, body_demo = False, body_error = [], body_details = [],
       body_message = [] \<rparr>"

definition error_response :: "nat \<Rightarrow> string \<Rightarrow> http_response" where
  "error_response statusCode msg =
     \<lparr> response_ok = False, response_status = statusCode,
       response_body = Some (empty_body \<lparr> body_error := msg \<rparr>) \<rparr>"

text \<open>The paid API answers 402, the demo API answers 500, the contract has a record.\<close>

definition two_failures :: remote where
  "two_failures =
     \<lparr> fetchImpl = (\<lambda>url. Inr (error_response 500 ''upstream exploded'')),
       paidFetch = Inr (\<lambda>url. Inr (error_response 402 ''payment required'')),
       getDetailedReport =
         (\<lambda>agentId.
            Inr \<lparr> raw_score = 800, raw_totalFeedback = 80, raw_positiveFeedback = 70,
                  raw_lastUpdated = 1771085895, raw_exists = True \<rparr>) \<rparr>"

text \<open>
  The paid API answers a report request with \<open>{"score": 0, "confidence": 0.5}\<close>, a body
  without feedback counters; \<open>bare_report_data\<close> is the \<open>data\<close> that \<open>queryApi\<close> makes of
  it.
\<close>

definition bare_report :: remote where
  "bare_report =
     \<lparr> fetchImpl = (\<lambda>url. Inl (Error ''demo API not reached'')),
       paidFetch =
         Inr (\<lambda>url.
           Inr \<lparr> response_ok = True, response_status = 200,
                 response_body =
                   Some (empty_body
                     \<lparr> body_score := Num (dbl 0), body_confidence := Num (dbl (1 / 2)) \<rparr>) \<rparr>),
       getDetailedReport = (\<lambda>agentId. Inl (Error ''contract not reached'')) \<rparr>"

definition bare_report_data :: response_data where
  "bare_report_data =
     \<lparr> data_totalFeedback = Null, data_positiveFeedback = Null, data_flagged = None,
       data_riskFactors = [], data_negativeRateBps = Null, data_lastUpdated = Null,
       data_demo = False \<rparr>"

text \<open>An error whose cause has a cause with the code -32000.\<close>

definition nested_cause_error :: js_error where
  "nested_cause_error =
     JsError ''Error'' NoCode ''outer'' [] None None
       (Some (JsError ''Error'' NoCode ''middle'' [] None None
          (Some (JsError ''Error'' (NumCode (- 32000)) ''inner'' [] None None None))))"

subsection \<open>Inputs of the indexer scenarios\<close>

text \<open>
  Two agents, 10 and 11, with one feedback each (in blocks 5 and 6, emitted as
  \<open>NewFeedback\<close>), a chain head at block 6, and every call succeeding at its first attempt.
\<close>

definition feedback_event :: "int \<Rightarrow> int \<Rightarrow> nat \<Rightarrow> feedback_log" where
  "feedback_event agent amount block =
     \<lparr> arg_agentId = BigIntOf agent, arg_clientAddress = ''0xc1'', arg_feedbackIndex = 1,
       arg_value = amount, arg_valueDecimals = 0, arg_tag1 = ''quality'', arg_tag2 = ''execution'',
       arg_endpoint = ''https://agent.example'', arg_feedbackURI = ''ipfs://feedback'',
       arg_feedbackHash = ''0x00'', log_blockNumber = block, log_transactionHash = ''0xt'',
       log_index = 0 \<rparr>"

definition registry_logs :: "feedback_log list" where
  "registry_logs = [feedback_event 10 100 5, feedback_event 11 (- 100) 6]"

definition test_chain :: chain where
  "test_chain =
     \<lparr> getBlockNumber = (\<lambda>k. Inr 6),
       queryFilter =
         (\<lambda>ev agent fromBlock toBlock k.
            Inr (if ev = NewFeedback then
                   filter (\<lambda>lg. fromBlock \<le> log_blockNumber lg \<and> log_blockNumber lg \<le> toBlock
                                \<and> (case agent of None \<Rightarrow> True
                                    | Some a \<Rightarrow> arg_agentId lg = BigIntOf (int a)))
                     registry_logs
                 else [])),
       getBlock = (\<lambda>n k. Inr (Some (1770768000 + n))),
       batchUpdateScores = (\<lambda>ids scs tots poss k. Inr ''0xbatch''),
       wait_receipt = (\<lambda>tx k. Inr ()) \<rparr>"

text \<open>The same chain with a score contract that reverts the batch update.\<close>

definition reverting_chain :: chain where
  "reverting_chain =
     test_chain \<lparr> batchUpdateScores := (\<lambda>ids scs tots poss k. Inl (Error ''execution reverted'')) \<rparr>"

text \<open>A batch cap of one agent, and the runtime configuration it resolves to.\<close>

definition test_settings :: indexer_settings where
  "test_settings =
     \<lparr> has_updaterSigner = True, updaterPrivateKey = [], trustScoreAddress = ''0xa770'',
       reputationRegistryAddress = ''0xb881'', checkpointPath = ''checkpoint.json'',
       startBlock = dbl 0, maxBatchSize = dbl 1,
       scoringConfig = config_as_input DEFAULT_SCORING_CONFIG \<rparr>"

definition test_config :: runtime_config where
  "test_config = \<lparr> run_checkpointPath = ''checkpoint.json'', run_startBlock = 0,
     run_maxBatchSize = 1, run_scoringConfig = DEFAULT_SCORING_CONFIG \<rparr>"

text \<open>An empty file system, and one whose checkpoint holds block 6 and the pending agent 11.\<close>

definition no_files :: files where
  "no_files path = Inl ENOENT"

definition one_pending :: files where
  "one_pending =
     no_files(''checkpoint.json'' :=
       Inr (Holds \<lparr> raw_lastProcessedBlock = Some 6, raw_pendingAgentIds = [BigIntOf 11] \<rparr>))"

text \<open>The two cycles of the overflow scenario, and the file systems they leave.\<close>

definition first_report :: cycle_report where
  "first_report =
     \<lparr> fromBlock = 1, latestBlock = 6, newEventCount = 2, dirtyAgentCount = 2,
       processedAgentCount = 1, queuedAgentCount = 1, processedAgentIds = [10],
       queuedAgentIds = [11], txHashes = [''0xbatch''] \<rparr>"

definition second_report :: cycle_report where
  "second_report =
     \<lparr> fromBlock = 7, latestBlock = 6, newEventCount = 0, dirtyAgentCount = 1,
       processedAgentCount = 1, queuedAgentCount = 0, processedAgentIds = [11],
       queuedAgentIds = [], txHashes = [''0xbatch''] \<rparr>"

definition after_first :: files where
  "after_first =
     snd (runIndexerCycle (Suc 0) test_settings (dbl 1770854400000) test_chain no_faults no_files)"

definition after_second :: files where
  "after_second =
     snd (runIndexerCycle (Suc 0) test_settings (dbl 1770854400000) test_chain no_faults after_first)"

text \<open>A checkpoint value with an entry that is no integer, a negative one and a duplicate.\<close>

definition untidy_checkpoint :: raw_checkpoint where
  "untidy_checkpoint =
     \<lparr> raw_lastProcessedBlock = Some 12,
       raw_pendingAgentIds = [BigIntOf 5, NotBigInt, BigIntOf (- 1), BigIntOf 3, BigIntOf 5] \<rparr>"

section \<open>Properties of the number model\<close>

subsection \<open>Rounding to the nearest integer\<close>

lemma rhe_bounds:
  "of_int (round_half_even y) - 1 / 2 \<le> y \<and> y \<le> of_int (round_half_even y) + 1 / 2"
proof -
  define r where "r = y - of_int \<lfloor>y\<rfloor>"
  have r: "0 \<le> r" "r < 1" and y: "y = of_int \<lfloor>y\<rfloor> + r"
    unfolding r_def by linarith+
  consider "r < 1 / 2" | "r > 1 / 2" | "r = 1 / 2 \<and> even \<lfloor>y\<rfloor>" | "r = 1 / 2 \<and> odd \<lfloor>y\<rfloor>"
    by fastforce
  then show ?thesis
  proof cases
    case 1
    then have "round_half_even y = \<lfloor>y\<rfloor>"
      unfolding round_half_even_def Let_def r_def by simp
    then show ?thesis using r y 1 by simp
  next
    case 2
    then have "round_half_even y = \<lfloor>y\<rfloor> + 1"
      unfolding round_half_even_def Let_def r_def by simp
    then show ?thesis using r y 2 by simp
  next
    case 3
    then have "round_half_even y = \<lfloor>y\<rfloor>"
      unfolding round_half_even_def Let_def r_def by simp
    then show ?thesis using r y 3 by simp
  next
    case 4
    then have "round_half_even y = \<lfloor>y\<rfloor> + 1"
      unfolding round_half_even_def Let_def r_def by simp
    then show ?thesis using r y 4 by simp
  qed
qed

lemma rhe_of_int [simp]: "round_half_even (of_int k) = k"
  unfolding round_half_even_def Let_def by simp

lemma rhe_eqI:
  assumes "\<bar>y - of_int k\<bar> < 1 / 2"
  shows "round_half_even y = k"
proof -
  have "\<bar>of_int (round_half_even y) - (of_int k :: rat)\<bar> < 1"
    using rhe_bounds [of y] assms by linarith
  then have "\<bar>(of_int (round_half_even y - k) :: rat)\<bar> < 1"
    by simp
  then have "\<bar>round_half_even y - k\<bar> < 1"
    by (metis of_int_abs of_int_less_1_iff)
  then show ?thesis
    by simp
qed

lemma rhe_mono:
  assumes "x \<le> y"
  shows "round_half_even x \<le> round_half_even y"
proof (rule ccontr)
  assume "\<not> round_half_even x \<le> round_half_even y"
  then have "round_half_even y + 1 \<le> round_half_even x"
    by simp
  then have "(of_int (round_half_even y) :: rat) + 1 \<le> of_int (round_half_even x)"
    by (metis of_int_1 of_int_add of_int_le_iff)
  then have "x = y" "y = of_int (round_half_even y) + 1 / 2"
    using rhe_bounds [of x] rhe_bounds [of y] assms by linarith+
  then have "round_half_even x = round_half_even y"
    by simp
  then show False
    using \<open>\<not> round_half_even x \<le> round_half_even y\<close> by simp
qed

lemma rhe_minus: "round_half_even (- y) = - round_half_even y"
proof (cases "of_int \<lfloor>y\<rfloor> = y")
  case True
  then obtain k where "y = of_int k"
    by metis
  then show ?thesis
    by (metis of_int_minus rhe_of_int)
next
  case False
  have fl: "\<lfloor>- y\<rfloor> = - \<lfloor>y\<rfloor> - 1"
    using False by (simp add: floor_minus ceiling_altdef)
  have b: "of_int \<lfloor>y\<rfloor> \<le> y" "y < of_int \<lfloor>y\<rfloor> + 1"
    by linarith+
  show ?thesis
    unfolding round_half_even_def Let_def fl using b by auto
qed

lemma rhe_tie:
  assumes "y = of_int k + 1 / 2"
  shows "round_half_even y = (if even k then k else k + 1)"
proof -
  have "\<lfloor>y\<rfloor> = k"
    unfolding assms by linarith
  then show ?thesis
    unfolding round_half_even_def Let_def by (simp add: assms)
qed

subsection \<open>Powers of two and exponents\<close>

lemma bitlen_powi:
  assumes "0 < p"
  shows "2 powi (bitlen p - 1) \<le> (of_int p :: rat)" "(of_int p :: rat) < 2 powi bitlen p"
proof -
  have b: "2 ^ nat (bitlen p - 1) \<le> p" "p < 2 ^ nat (bitlen p)"
    using bitlen_bounds [OF assms] by simp_all
  have pos: "1 \<le> bitlen p"
  proof (rule ccontr)
    assume "\<not> 1 \<le> bitlen p"
    then have "nat (bitlen p) = 0" by simp
    then show False using b(2) assms by simp
  qed
  have "(of_int (2 ^ nat (bitlen p - 1)) :: rat) \<le> of_int p"
    using b(1) by (simp only: of_int_le_iff)
  then show "2 powi (bitlen p - 1) \<le> (of_int p :: rat)"
    using pos by (simp add: power_int_def)
  have "(of_int p :: rat) < of_int (2 ^ nat (bitlen p))"
    using b(2) by (simp only: of_int_less_iff)
  then show "(of_int p :: rat) < 2 powi bitlen p"
    using pos by (simp add: power_int_def)
qed

lemma powi_add: "(2::rat) powi (a + b) = 2 powi a * 2 powi b"
  by (simp add: power_int_add)

lemma powi_diff: "(2::rat) powi (a - b) = 2 powi a / 2 powi b"
  by (simp add: power_int_diff)

lemma powi_pos [simp]: "(0::rat) < 2 powi a"
  by (simp add: zero_less_power_int)

lemma powi_mono: "a \<le> b \<Longrightarrow> (2::rat) powi a \<le> 2 powi b"
  by (simp add: power_int_increasing)

lemma powi_strict_mono: "a < b \<Longrightarrow> (2::rat) powi a < 2 powi b"
  by (simp add: power_int_strict_increasing)

lemma powi_less_iff: "(2::rat) powi a < 2 powi b \<longleftrightarrow> a < b"
  by (metis powi_mono powi_strict_mono not_less)

lemma powi_le_iff: "(2::rat) powi a \<le> 2 powi b \<longleftrightarrow> a \<le> b"
  by (metis powi_mono powi_strict_mono not_less)

lemma ilog2_bounds:
  assumes "x \<noteq> 0"
  shows "2 powi ilog2 x \<le> \<bar>x\<bar>" "\<bar>x\<bar> < 2 powi (ilog2 x + 1)"
proof -
  obtain p q where pq: "quotient_of \<bar>x\<bar> = (p, q)"
    by (cases "quotient_of \<bar>x\<bar>")
  have q: "0 < q"
    using quotient_of_denom_pos [OF pq] .
  have x: "\<bar>x\<bar> = of_int p / of_int q"
    using quotient_of_div [OF pq] .
  have p: "0 < p"
  proof -
    have "0 < \<bar>x\<bar>" using assms by simp
    then have "(0::rat) < of_int p / of_int q" using x by simp
    then show ?thesis using q by (simp add: zero_less_divide_iff)
  qed
  define d where "d = bitlen p - bitlen q"
  have up: "\<bar>x\<bar> < 2 powi (d + 1)"
  proof -
    have "of_int p / (of_int q :: rat) < 2 powi bitlen p / of_int q"
      using bitlen_powi(2) [OF p] q by (simp add: divide_strict_right_mono)
    also have "\<dots> \<le> 2 powi bitlen p / 2 powi (bitlen q - 1)"
      using bitlen_powi(1) [OF q] q by (intro divide_left_mono mult_pos_pos) simp_all
    also have "\<dots> = 2 powi (d + 1)"
      unfolding d_def powi_diff [symmetric] by (simp add: algebra_simps)
    finally show ?thesis unfolding x .
  qed
  have low: "2 powi (d - 1) < \<bar>x\<bar>"
  proof -
    have "2 powi (d - 1) = 2 powi (bitlen p - 1) / (2 powi bitlen q :: rat)"
      unfolding d_def powi_diff [symmetric] by (simp add: algebra_simps)
    also have "\<dots> \<le> of_int p / 2 powi bitlen q"
      using bitlen_powi(1) [OF p] by (intro divide_right_mono) simp_all
    also have "\<dots> < of_int p / of_int q"
      using bitlen_powi(2) [OF q] p q by (intro divide_strict_left_mono) simp_all
    finally show ?thesis unfolding x .
  qed
  have il: "ilog2 x = (if 2 powi d \<le> \<bar>x\<bar> then d else d - 1)"
    unfolding ilog2_def pq d_def by (simp add: Let_def)
  show "2 powi ilog2 x \<le> \<bar>x\<bar>"
    unfolding il using low by auto
  show "\<bar>x\<bar> < 2 powi (ilog2 x + 1)"
    unfolding il using up by auto
qed

lemma ilog2_unique:
  assumes "2 powi e \<le> \<bar>x\<bar>" "\<bar>x\<bar> < 2 powi (e + 1)"
  shows "ilog2 x = e"
proof -
  have "0 < \<bar>x\<bar>"
    using assms(1) powi_pos [of e] by linarith
  then have nz: "x \<noteq> 0"
    by simp
  have "2 powi e < (2::rat) powi (ilog2 x + 1)"
    using assms(1) ilog2_bounds(2) [OF nz] by linarith
  moreover have "2 powi ilog2 x < (2::rat) powi (e + 1)"
    using assms(2) ilog2_bounds(1) [OF nz] by linarith
  ultimately show ?thesis
    unfolding powi_less_iff by linarith
qed

lemma ilog2_abs_mono:
  assumes "x \<noteq> 0" "\<bar>x\<bar> \<le> \<bar>y\<bar>"
  shows "ilog2 x \<le> ilog2 y"
proof -
  have ny: "y \<noteq> 0" using assms by auto
  have "2 powi ilog2 x < (2::rat) powi (ilog2 y + 1)"
    using ilog2_bounds(1) [OF assms(1)] ilog2_bounds(2) [OF ny] assms(2) by linarith
  then show ?thesis
    unfolding powi_less_iff by linarith
qed

lemma ilog2_minus [simp]: "ilog2 (- x) = ilog2 x"
  unfolding ilog2_def by simp


lemma ulp_exponent_minus [simp]: "ulp_exponent (- x) = ulp_exponent x"
  unfolding ulp_exponent_def by simp

lemma ulp_exponent_ge: "- 1074 \<le> ulp_exponent x"
  unfolding ulp_exponent_def by simp

lemma ulp_exponent_mono:
  assumes "x \<noteq> 0" "\<bar>x\<bar> \<le> \<bar>y\<bar>"
  shows "ulp_exponent x \<le> ulp_exponent y"
  unfolding ulp_exponent_def using ilog2_abs_mono [OF assms] by simp

subsection \<open>Rounding to the nearest double\<close>

lemma round_to_double_0 [simp]: "round_to_double 0 = 0"
  unfolding round_to_double_def by simp

lemma round_to_double_minus: "round_to_double (- x) = - round_to_double x"
  unfolding round_to_double_def by (simp add: rhe_minus)

lemma of_int_powi: "0 \<le> n \<Longrightarrow> (of_int (2 ^ nat n) :: rat) = 2 powi n"
  by (simp add: power_int_def)

lemma round_to_double_grid:
  assumes "ulp_exponent x \<le> e" "x = of_int k * 2 powi e"
  shows "round_to_double x = x"
proof (cases "x = 0")
  case True
  then show ?thesis by simp
next
  case False
  define n where "n = e - ulp_exponent x"
  have n: "0 \<le> n" unfolding n_def using assms(1) by simp
  have "x / 2 powi ulp_exponent x = of_int k * (2 powi e / 2 powi ulp_exponent x)"
    unfolding assms(2) by simp
  also have "\<dots> = of_int k * 2 powi n"
    unfolding n_def powi_diff ..
  also have "\<dots> = of_int (k * 2 ^ nat n)"
    using of_int_powi [OF n] by simp
  finally have "round_half_even (x / 2 powi ulp_exponent x) = k * 2 ^ nat n"
    by (simp only: rhe_of_int)
  then have "round_to_double x = of_int (k * 2 ^ nat n) * 2 powi ulp_exponent x"
    unfolding round_to_double_def using False by simp
  also have "\<dots> = of_int k * (2 powi n * 2 powi ulp_exponent x)"
    using of_int_powi [OF n] by simp
  also have "\<dots> = of_int k * 2 powi e"
    unfolding powi_add [symmetric] n_def by simp
  finally show ?thesis
    unfolding assms(2) .
qed

lemma ulp_exponent_le:
  assumes "\<bar>x\<bar> < 2 powi (e + 53)" "- 1074 \<le> e" "x \<noteq> 0"
  shows "ulp_exponent x \<le> e"
proof -
  have "2 powi ilog2 x < (2::rat) powi (e + 53)"
    using ilog2_bounds(1) [OF assms(3)] assms(1) by linarith
  then have "ilog2 x < e + 53"
    unfolding powi_less_iff .
  then show ?thesis
    unfolding ulp_exponent_def using assms(2) by simp
qed

lemma round_to_double_mantissa:
  assumes "\<bar>k\<bar> < 2 ^ 53" "- 1074 \<le> e"
  shows "round_to_double (of_int k * 2 powi e) = of_int k * 2 powi e"
proof (cases "k = 0")
  case True
  then show ?thesis by simp
next
  case False
  define x :: rat where "x = of_int k * 2 powi e"
  have nz: "x \<noteq> 0"
    unfolding x_def using False by simp
  have "(of_int \<bar>k\<bar> :: rat) < of_int (2 ^ 53)"
    using assms(1) by (simp only: of_int_less_iff)
  then have "\<bar>of_int k :: rat\<bar> < 2 powi 53"
    by simp
  then have "\<bar>x\<bar> < 2 powi 53 * 2 powi e"
    unfolding x_def abs_mult by (simp add: mult_strict_right_mono)
  then have "\<bar>x\<bar> < 2 powi (e + 53)"
    unfolding powi_add by (simp add: mult.commute)
  then have "ulp_exponent x \<le> e"
    using assms(2) nz by (rule ulp_exponent_le)
  then show ?thesis
    using round_to_double_grid [of x e k] unfolding x_def by simp
qed

lemma round_to_double_power: "- 1074 \<le> e \<Longrightarrow> round_to_double (2 powi e) = 2 powi e"
  using round_to_double_mantissa [of 1 e] by simp

lemma mantissa_bound:
  assumes "x \<noteq> 0"
  shows "\<bar>x / 2 powi ulp_exponent x\<bar> < 2 powi 53"
proof -
  have "ilog2 x + 1 \<le> ulp_exponent x + 53"
    unfolding ulp_exponent_def by simp
  then have "\<bar>x\<bar> < 2 powi (ulp_exponent x + 53)"
    using ilog2_bounds(2) [OF assms] powi_mono [of "ilog2 x + 1" "ulp_exponent x + 53"]
    by linarith
  then have "\<bar>x\<bar> < 2 powi 53 * 2 powi ulp_exponent x"
    unfolding powi_add by (simp add: mult.commute)
  then show ?thesis
    by (simp add: pos_divide_less_eq)
qed

lemma rhe_abs_le:
  assumes "\<bar>y\<bar> \<le> of_int m"
  shows "\<bar>round_half_even y\<bar> \<le> m"
proof -
  have "round_half_even y \<le> round_half_even (of_int m)"
    using assms by (intro rhe_mono) linarith
  moreover have "round_half_even (of_int (- m)) \<le> round_half_even y"
    using assms by (intro rhe_mono) simp
  ultimately show ?thesis
    by (simp only: rhe_of_int)
qed

lemma round_to_double_form:
  assumes "x \<noteq> 0"
  shows "\<exists>k. round_to_double x = of_int k * 2 powi ulp_exponent x \<and> \<bar>k\<bar> \<le> 2 ^ 53"
proof -
  have "\<bar>x / 2 powi ulp_exponent x\<bar> \<le> of_int (2 ^ 53)"
    using mantissa_bound [OF assms] by simp
  then have "\<bar>round_half_even (x / 2 powi ulp_exponent x)\<bar> \<le> 2 ^ 53"
    by (rule rhe_abs_le)
  then show ?thesis
    unfolding round_to_double_def using assms by auto
qed

lemma round_to_double_int_pow:
  assumes "\<bar>k\<bar> \<le> 2 ^ 53" "- 1074 \<le> e"
  shows "round_to_double (of_int k * 2 powi e) = of_int k * 2 powi e"
proof (cases "\<bar>k\<bar> < 2 ^ 53")
  case True
  then show ?thesis using assms(2) by (rule round_to_double_mantissa)
next
  case False
  then have "k = 2 ^ 53 \<or> k = - (2 ^ 53)"
    using assms(1) by linarith
  then have "(of_int k :: rat) * 2 powi e = of_int (k div 2) * 2 powi (e + 1)"
    unfolding powi_add by auto
  moreover have "round_to_double (of_int (k div 2) * 2 powi (e + 1))
      = of_int (k div 2) * 2 powi (e + 1)"
    using \<open>k = 2 ^ 53 \<or> k = - (2 ^ 53)\<close> assms(2)
    by (intro round_to_double_mantissa) auto
  ultimately show ?thesis
    by simp
qed

lemma round_to_double_idem: "round_to_double (round_to_double x) = round_to_double x"
proof (cases "x = 0")
  case True
  then show ?thesis by simp
next
  case False
  obtain k where "round_to_double x = of_int k * 2 powi ulp_exponent x" "\<bar>k\<bar> \<le> 2 ^ 53"
    using round_to_double_form [OF False] by blast
  then show ?thesis
    using round_to_double_int_pow [of k "ulp_exponent x"] ulp_exponent_ge [of x] by simp
qed


lemma round_to_double_nonneg:
  assumes "0 \<le> x"
  shows "0 \<le> round_to_double x"
proof -
  have "0 \<le> x / 2 powi ulp_exponent x"
    using assms by simp
  then have "round_half_even 0 \<le> round_half_even (x / 2 powi ulp_exponent x)"
    by (rule rhe_mono)
  then have "0 \<le> round_half_even (x / 2 powi ulp_exponent x)"
    using rhe_of_int [of 0] by simp
  then show ?thesis
    unfolding round_to_double_def by simp
qed

lemma round_to_double_mono_pos:
  assumes "0 < x" "x \<le> y"
  shows "round_to_double x \<le> round_to_double y"
proof -
  have nz: "x \<noteq> 0" "y \<noteq> 0"
    using assms by simp_all
  have E: "ulp_exponent x \<le> ulp_exponent y"
    using assms by (intro ulp_exponent_mono) simp_all
  have Rx: "round_to_double x
      = of_int (round_half_even (x / 2 powi ulp_exponent x)) * 2 powi ulp_exponent x"
    and Ry: "round_to_double y
      = of_int (round_half_even (y / 2 powi ulp_exponent y)) * 2 powi ulp_exponent y"
    unfolding round_to_double_def using nz by simp_all
  show ?thesis
  proof (cases "ulp_exponent x = ulp_exponent y")
    case True
    have "x / 2 powi ulp_exponent y \<le> y / 2 powi ulp_exponent y"
      using assms(2) by (simp add: divide_right_mono)
    then have "round_half_even (x / 2 powi ulp_exponent y)
        \<le> round_half_even (y / 2 powi ulp_exponent y)"
      by (rule rhe_mono)
    then show ?thesis
      unfolding Rx Ry True by (simp add: mult_right_mono)
  next
    case False
    then have lt: "ulp_exponent x < ulp_exponent y"
      using E by simp
    define B :: rat where "B = 2 powi (ulp_exponent y + 52)"
    have ey: "ulp_exponent y = ilog2 y - 52"
      using lt ulp_exponent_ge [of x] unfolding ulp_exponent_def [of y] by linarith
    have By: "B \<le> y"
      unfolding B_def ey using ilog2_bounds(1) [OF nz(2)] assms by simp
    have "ilog2 x + 1 \<le> ulp_exponent x + 53"
      unfolding ulp_exponent_def by simp
    then have "ilog2 x + 1 \<le> ulp_exponent y + 52"
      using lt by simp
    then have xB: "x \<le> B"
      unfolding B_def
      using ilog2_bounds(2) [OF nz(1)] assms(1) powi_mono [of "ilog2 x + 1" "ulp_exponent y + 52"]
      by simp
    define n where "n = ulp_exponent y + 52 - ulp_exponent x"
    have n: "0 \<le> n"
      unfolding n_def using lt by simp
    have Bx: "B / 2 powi ulp_exponent x = of_int (2 ^ nat n)"
      unfolding B_def powi_diff [symmetric] using of_int_powi [OF n] by (simp add: n_def)
    have "x / 2 powi ulp_exponent x \<le> B / 2 powi ulp_exponent x"
      using xB by (simp add: divide_right_mono)
    then have "round_half_even (x / 2 powi ulp_exponent x)
        \<le> round_half_even (B / 2 powi ulp_exponent x)"
      by (rule rhe_mono)
    then have "round_half_even (x / 2 powi ulp_exponent x) \<le> 2 ^ nat n"
      unfolding Bx by (simp only: rhe_of_int)
    then have "(of_int (round_half_even (x / 2 powi ulp_exponent x)) :: rat)
        \<le> of_int (2 ^ nat n)"
      by (simp only: of_int_le_iff)
    then have "round_to_double x \<le> of_int (2 ^ nat n) * 2 powi ulp_exponent x"
      unfolding Rx by (simp add: mult_right_mono)
    also have "\<dots> = 2 powi n * 2 powi ulp_exponent x"
      by (simp only: of_int_powi [OF n])
    also have "\<dots> = 2 powi (n + ulp_exponent x)"
      by (simp only: powi_add)
    also have "\<dots> = B"
      unfolding n_def B_def by simp
    finally have low: "round_to_double x \<le> B" .
    have By': "B / 2 powi ulp_exponent y = of_int (2 ^ 52)"
      unfolding B_def powi_diff [symmetric] by simp
    have "B / 2 powi ulp_exponent y \<le> y / 2 powi ulp_exponent y"
      using By by (simp add: divide_right_mono)
    then have "round_half_even (B / 2 powi ulp_exponent y)
        \<le> round_half_even (y / 2 powi ulp_exponent y)"
      by (rule rhe_mono)
    then have "2 ^ 52 \<le> round_half_even (y / 2 powi ulp_exponent y)"
      unfolding By' by (simp only: rhe_of_int)
    then have "(of_int (2 ^ 52) :: rat)
        \<le> of_int (round_half_even (y / 2 powi ulp_exponent y))"
      by (simp only: of_int_le_iff)
    then have "of_int (2 ^ 52) * 2 powi ulp_exponent y \<le> round_to_double y"
      unfolding Ry by (simp add: mult_right_mono)
    moreover have "of_int (2 ^ 52) * 2 powi ulp_exponent y = B"
      unfolding B_def powi_add by simp
    ultimately show ?thesis
      using low by linarith
  qed
qed

lemma round_to_double_mono:
  assumes "x \<le> y"
  shows "round_to_double x \<le> round_to_double y"
proof -
  consider "0 < x" | "x \<le> 0 \<and> 0 \<le> y" | "y < 0"
    using assms by linarith
  then show ?thesis
  proof cases
    case 1
    then show ?thesis using assms by (rule round_to_double_mono_pos)
  next
    case 2
    have "round_to_double x = - round_to_double (- x)"
      by (simp add: round_to_double_minus)
    moreover have "0 \<le> round_to_double (- x)"
      using 2 by (intro round_to_double_nonneg) simp
    moreover have "0 \<le> round_to_double y"
      using 2 by (intro round_to_double_nonneg) simp
    ultimately show ?thesis by linarith
  next
    case 3
    then have "round_to_double (- y) \<le> round_to_double (- x)"
      using assms by (intro round_to_double_mono_pos) simp_all
    then show ?thesis
      by (simp add: round_to_double_minus)
  qed
qed

subsection \<open>Finite doubles and the numbers they make\<close>

lemma is_double_val [simp]: "is_double (val a)"
  using val [of a] by simp

lemma val_the_double: "is_double x \<Longrightarrow> val (the_double x) = x"
  by (simp add: the_double_inverse)

lemma is_double_0 [simp]: "is_double 0"
  by (simp add: is_double_def)

lemma is_double_round:
  "\<bar>round_to_double x\<bar> < 2 powi 1024 \<Longrightarrow> is_double (round_to_double x)"
  by (simp add: is_double_def round_to_double_idem)

lemma dbl_cases:
  obtains (pos) "dbl x = PosInfinity" "2 powi 1024 \<le> round_to_double x"
  | (neg) "dbl x = NegInfinity" "round_to_double x \<le> - (2 powi 1024)"
  | (fin) a where "dbl x = Finite a" "val a = round_to_double x"
proof (cases "2 powi 1024 \<le> round_to_double x")
  case True
  then show ?thesis using pos by (simp add: dbl_def)
next
  case False
  show ?thesis
  proof (cases "round_to_double x \<le> - (2 powi 1024)")
    case True
    have "(0::rat) < 2 powi 1024" by simp
    then have "\<not> 2 powi 1024 \<le> round_to_double x" using True by linarith
    then show ?thesis using neg True by (simp add: dbl_def)
  next
    case F2: False
    have "\<bar>round_to_double x\<bar> < 2 powi 1024"
      using False F2 by linarith
    then have "val (the_double (round_to_double x)) = round_to_double x"
      by (intro val_the_double is_double_round)
    moreover have "dbl x = Finite (the_double (round_to_double x))"
      using False F2 by (simp add: dbl_def)
    ultimately show ?thesis using fin by blast
  qed
qed

lemma dbl_exact:
  assumes "is_double x"
  shows "dbl x = Finite (the_double x)"
proof -
  have "round_to_double x = x" "\<bar>x\<bar> < 2 powi 1024"
    using assms by (simp_all add: is_double_def)
  then have "\<not> 2 powi 1024 \<le> x" "\<not> x \<le> - (2 powi 1024)"
    by linarith+
  then show ?thesis
    unfolding dbl_def Let_def \<open>round_to_double x = x\<close> by simp
qed

lemma dbl_val [simp]: "dbl (val a) = Finite a"
  by (simp add: dbl_exact val_inverse)

lemma dbl_round [simp]: "dbl (round_to_double x) = dbl x"
  unfolding dbl_def Let_def round_to_double_idem ..

lemma Finite_eq_dbl: "Finite a = dbl x \<longleftrightarrow> is_double (round_to_double x) \<and> val a = round_to_double x"
proof (cases x rule: dbl_cases)
  case pos
  then have "\<not> \<bar>round_to_double x\<bar> < 2 powi 1024" by linarith
  then show ?thesis using pos by (simp add: is_double_def)
next
  case neg
  then have "\<not> \<bar>round_to_double x\<bar> < 2 powi 1024" by linarith
  then show ?thesis using neg by (simp add: is_double_def)
next
  case (fin b)
  have "is_double (round_to_double x)"
    using fin(2) is_double_val [of b] by simp
  then show ?thesis
    using fin by (metis number.inject val_inject)
qed

lemma dbl_eq_iff:
  assumes "is_double x" "is_double y"
  shows "dbl x = dbl y \<longleftrightarrow> x = y"
  using assms by (auto simp: dbl_exact the_double_inject)

lemma NaN_absorbs [simp]:
  "js_lt a NaN \<longleftrightarrow> False" "js_lt NaN b \<longleftrightarrow> False"
  "js_add a NaN = NaN" "js_add NaN b = NaN"
  "js_mul a NaN = NaN" "js_mul NaN b = NaN"
  "js_div a NaN = NaN" "js_div NaN b = NaN"
  by (cases a; simp)+

subsection \<open>The order of numbers\<close>

lemma js_le_Finite [simp]: "js_le (Finite x) (Finite y) \<longleftrightarrow> val x \<le> val y"
  by (auto simp: js_le_def)

lemma js_le_simps [simp]:
  "\<not> js_le NaN b" "\<not> js_le a NaN"
  "js_le (Finite x) PosInfinity" "js_le NegInfinity (Finite x)"
  "\<not> js_le PosInfinity (Finite x)" "\<not> js_le (Finite x) NegInfinity"
  "js_le PosInfinity PosInfinity" "js_le NegInfinity NegInfinity"
  "js_le NegInfinity PosInfinity" "\<not> js_le PosInfinity NegInfinity"
  by (simp_all add: js_le_def)

lemma js_le_refl: "a \<noteq> NaN \<Longrightarrow> js_le a a"
  by (cases a) simp_all

lemma js_le_trans: "js_le a b \<Longrightarrow> js_le b c \<Longrightarrow> js_le a c"
  by (cases a; cases b; cases c) simp_all

lemma js_lt_le_trans: "js_lt a b \<Longrightarrow> js_le b c \<Longrightarrow> js_lt a c"
  by (cases a; cases b; cases c) simp_all

lemma js_le_lt_trans: "js_le a b \<Longrightarrow> js_lt b c \<Longrightarrow> js_lt a c"
  by (cases a; cases b; cases c) simp_all

lemma js_lt_imp_le: "js_lt a b \<Longrightarrow> js_le a b"
  by (cases a; cases b) simp_all

lemma js_lt_not_le: "js_lt a b \<Longrightarrow> \<not> js_le b a"
  by (cases a; cases b) simp_all

lemma js_le_antisym: "js_le a b \<Longrightarrow> js_le b a \<Longrightarrow> a = b"
  by (cases a; cases b) (simp_all add: val_inject)

lemma js_le_total: "a \<noteq> NaN \<Longrightarrow> b \<noteq> NaN \<Longrightarrow> js_le a b \<or> js_lt b a"
  by (simp add: js_le_def)

lemma dbl_mono:
  assumes "x \<le> y"
  shows "js_le (dbl x) (dbl y)"
proof -
  have R: "round_to_double x \<le> round_to_double y"
    using assms by (rule round_to_double_mono)
  have P: "(0::rat) < 2 powi 1024" by simp
  show ?thesis
  proof (cases x rule: dbl_cases)
    case pos
    then have "2 powi 1024 \<le> round_to_double y"
      using R by linarith
    then have "dbl y = PosInfinity"
      by (simp add: dbl_def)
    then show ?thesis using pos by simp
  next
    case neg
    then show ?thesis
      by (cases y rule: dbl_cases) simp_all
  next
    case (fin a)
    show ?thesis
    proof (cases y rule: dbl_cases)
      case pos
      then show ?thesis using fin by simp
    next
      case neg
      have "\<bar>val a\<bar> < 2 powi 1024"
        using is_double_val [of a] by (simp add: is_double_def)
      then show ?thesis
        using neg fin R by linarith
    next
      case (fin b)
      then show ?thesis
        using \<open>dbl x = Finite a\<close> \<open>val a = round_to_double x\<close> R by simp
    qed
  qed
qed


lemma dbl_not_NaN [simp]: "dbl x \<noteq> NaN" "NaN \<noteq> dbl x"
  by (cases x rule: dbl_cases; simp)+

subsection \<open>Recognising a double\<close>

lemma is_double_cert:
  assumes "x = of_int k * 2 powi e" "\<bar>k\<bar> \<le> 2 ^ 53" "- 1074 \<le> e" "e \<le> 970"
  shows "is_double x"
proof -
  have "(of_int \<bar>k\<bar> :: rat) \<le> of_int (2 ^ 53)"
    using assms(2) by (simp only: of_int_le_iff)
  then have "\<bar>of_int k :: rat\<bar> \<le> 2 powi 53"
    by simp
  then have "\<bar>x\<bar> \<le> 2 powi 53 * 2 powi e"
    unfolding assms(1) abs_mult by (simp add: mult_right_mono)
  also have "\<dots> = 2 powi (53 + e)"
    by (simp only: powi_add)
  also have "\<dots> < 2 powi 1024"
    using assms(4) by (intro powi_strict_mono) simp
  finally have "\<bar>x\<bar> < 2 powi 1024" .
  then show ?thesis
    unfolding is_double_def assms(1)
    using round_to_double_int_pow [OF assms(2,3)] by (simp add: assms(1))
qed

lemma is_double_wide:
  assumes "x = of_int k * 2 powi e" "\<bar>k\<bar> \<le> 2 ^ 53" "- 1074 \<le> e" "\<bar>x\<bar> < 2 powi 1024"
  shows "is_double x"
  unfolding is_double_def
  using round_to_double_int_pow [OF assms(2,3)] assms(4) by (simp add: assms(1))

lemma is_double_of_int: "\<bar>k\<bar> \<le> 2 ^ 53 \<Longrightarrow> is_double (of_int k)"
  using is_double_cert [of "of_int k" k 0] by simp

lemma is_double_of_nat: "n \<le> 2 ^ 53 \<Longrightarrow> is_double (of_nat n)"
proof -
  assume "n \<le> 2 ^ 53"
  then have "int n \<le> 2 ^ 53"
    by (metis of_nat_le_iff of_nat_numeral of_nat_power)
  then show ?thesis
    using is_double_of_int [of "int n"] by simp
qed

lemma is_double_numeral [simp]:
  "numeral n \<le> (9007199254740992 :: int) \<Longrightarrow> is_double (numeral n)"
  using is_double_of_int [of "numeral n"] by simp

lemma is_double_1 [simp]: "is_double 1"
  using is_double_of_int [of 1] by simp

lemma is_double_minus: "is_double (- x) \<longleftrightarrow> is_double x"
  unfolding is_double_def round_to_double_minus by auto

subsection \<open>The operations on given doubles\<close>

lemma js_neg_dbl: "is_double x \<Longrightarrow> js_neg (dbl x) = dbl (- x)"
  by (simp add: dbl_exact val_the_double)

lemma js_add_dbl: "is_double x \<Longrightarrow> is_double y \<Longrightarrow> js_add (dbl x) (dbl y) = dbl (x + y)"
  by (simp add: dbl_exact val_the_double)

lemma js_sub_dbl: "is_double x \<Longrightarrow> is_double y \<Longrightarrow> js_sub (dbl x) (dbl y) = dbl (x - y)"
  unfolding js_sub_def
  by (simp add: js_neg_dbl js_add_dbl is_double_minus)

lemma js_mul_dbl: "is_double x \<Longrightarrow> is_double y \<Longrightarrow> js_mul (dbl x) (dbl y) = dbl (x * y)"
  by (simp add: dbl_exact val_the_double)

lemma js_div_dbl:
  "is_double x \<Longrightarrow> is_double y \<Longrightarrow> y \<noteq> 0 \<Longrightarrow> js_div (dbl x) (dbl y) = dbl (x / y)"
  by (simp add: dbl_exact val_the_double)

lemma js_lt_dbl: "is_double x \<Longrightarrow> is_double y \<Longrightarrow> js_lt (dbl x) (dbl y) \<longleftrightarrow> x < y"
  by (simp add: dbl_exact val_the_double)

lemma js_le_dbl: "is_double x \<Longrightarrow> is_double y \<Longrightarrow> js_le (dbl x) (dbl y) \<longleftrightarrow> x \<le> y"
  by (simp add: dbl_exact val_the_double)

lemma Number_isFinite_dbl: "is_double x \<Longrightarrow> Number_isFinite (dbl x)"
  by (simp add: dbl_exact)

lemma Number_isInteger_dbl: "is_double x \<Longrightarrow> Number_isInteger (dbl x) \<longleftrightarrow> of_int \<lfloor>x\<rfloor> = x"
  by (simp add: dbl_exact val_the_double)

lemma Math_round_dbl: "is_double x \<Longrightarrow> Math_round (dbl x) = dbl (of_int \<lfloor>x + 1 / 2\<rfloor>)"
  by (simp add: dbl_exact val_the_double)

subsection \<open>The nearest double, by its two neighbours\<close>

lemma round_to_double_nearest:
  assumes "- 1074 \<le> e" "2 powi (e + 52) \<le> \<bar>x\<bar>" "\<bar>x\<bar> < 2 powi (e + 53)"
    and "\<bar>x - of_int k * 2 powi e\<bar> < 2 powi e / 2"
  shows "round_to_double x = of_int k * 2 powi e"
proof -
  have "ilog2 x = e + 52"
    using assms(2,3) by (intro ilog2_unique) (simp_all add: add.commute add.left_commute)
  then have E: "ulp_exponent x = e"
    unfolding ulp_exponent_def using assms(1) by simp
  have "0 < \<bar>x\<bar>"
    using assms(2) powi_pos [of "e + 52"] by linarith
  then have nz: "x \<noteq> 0"
    by simp
  have "\<bar>x / 2 powi e - of_int k\<bar> = \<bar>x - of_int k * 2 powi e\<bar> / 2 powi e"
    by (simp add: field_simps abs_divide flip: abs_mult)
  also have "\<dots> < 1 / 2"
    using assms(4) by (simp add: pos_divide_less_eq)
  finally have "round_half_even (x / 2 powi e) = k"
    by (rule rhe_eqI)
  then show ?thesis
    unfolding round_to_double_def E using nz by simp
qed

lemma dbl_nearest:
  assumes "- 1074 \<le> e" "e \<le> 970" "2 powi (e + 52) \<le> \<bar>x\<bar>" "\<bar>x\<bar> < 2 powi (e + 53)"
    and "\<bar>x - of_int k * 2 powi e\<bar> < 2 powi e / 2" "y = of_int k * 2 powi e"
  shows "dbl x = dbl y"
  using round_to_double_nearest [OF assms(1,3,4,5)] dbl_round [of x] unfolding assms(6) by simp

subsection \<open>Integral doubles and \<open>Math.round\<close>\<close>

lemma double_integral:
  assumes "is_double v" "2 ^ 52 \<le> \<bar>v\<bar>"
  shows "of_int \<lfloor>v\<rfloor> = v"
proof -
  have nz: "v \<noteq> 0"
    using assms(2) by auto
  have "2 powi 52 \<le> \<bar>v\<bar>"
    using assms(2) by simp
  then have "2 powi 52 < (2::rat) powi (ilog2 v + 1)"
    using ilog2_bounds(2) [OF nz] by linarith
  then have "52 \<le> ilog2 v"
    unfolding powi_less_iff by simp
  then have E: "0 \<le> ulp_exponent v"
    unfolding ulp_exponent_def by simp
  have "v = round_to_double v"
    using assms(1) by (simp add: is_double_def)
  also have "\<dots> = of_int (round_half_even (v / 2 powi ulp_exponent v)) * 2 powi ulp_exponent v"
    unfolding round_to_double_def using nz by simp
  also have "\<dots> = of_int (round_half_even (v / 2 powi ulp_exponent v) * 2 ^ nat (ulp_exponent v))"
    using of_int_powi [OF E] by simp
  finally obtain m :: int where "v = of_int m"
    by blast
  then show ?thesis
    by simp
qed

lemma Math_round_exact:
  "\<exists>b. Math_round (Finite a) = Finite b \<and> val b = of_int \<lfloor>val a + 1 / 2\<rfloor>"
proof -
  have "is_double (of_int \<lfloor>val a + 1 / 2\<rfloor>)"
  proof (cases "2 ^ 52 \<le> \<bar>val a\<bar>")
    case True
    then have "of_int \<lfloor>val a\<rfloor> = val a"
      by (intro double_integral) simp_all
    then obtain m :: int where m: "val a = of_int m"
      by metis
    have "\<lfloor>val a + 1 / 2\<rfloor> = m"
      unfolding m by linarith
    then show ?thesis
      using is_double_val [of a] m by simp
  next
    case False
    then have "\<bar>val a\<bar> < 4503599627370496"
      by simp
    then have "- 4503599627370496 < val a" "val a < 4503599627370496"
      by linarith+
    then have "- 9007199254740992 \<le> \<lfloor>val a + 1 / 2\<rfloor>" "\<lfloor>val a + 1 / 2\<rfloor> \<le> 9007199254740992"
      by linarith+
    then have "\<bar>\<lfloor>val a + 1 / 2\<rfloor>\<bar> \<le> 9007199254740992"
      by linarith
    moreover have "(2::int) ^ 53 = 9007199254740992"
      by simp
    ultimately have "\<bar>\<lfloor>val a + 1 / 2\<rfloor>\<bar> \<le> 2 ^ 53"
      by (simp only:)
    then show ?thesis
      by (rule is_double_of_int)
  qed
  then show ?thesis
    by (simp add: dbl_exact val_the_double)
qed


lemma dbl_0: "dbl 0 = Finite (the_double 0)" "val (the_double 0) = 0"
  by (simp_all add: dbl_exact val_the_double)

lemma dbl_1: "dbl 1 = Finite (the_double 1)" "val (the_double 1) = 1"
  by (simp_all add: dbl_exact val_the_double)

lemma js_le_dbl_Finite:
  assumes "is_double q"
  shows "js_le (dbl q) (Finite x) \<longleftrightarrow> q \<le> val x"
    and "js_le (Finite x) (dbl q) \<longleftrightarrow> val x \<le> q"
    and "js_lt (dbl q) (Finite x) \<longleftrightarrow> q < val x"
    and "js_lt (Finite x) (dbl q) \<longleftrightarrow> val x < q"
    and "Finite x = dbl q \<longleftrightarrow> val x = q"
    and "dbl q = Finite x \<longleftrightarrow> val x = q"
    and "js_le (dbl q) PosInfinity" and "js_lt (dbl q) PosInfinity"
    and "\<not> js_le PosInfinity (dbl q)" and "\<not> js_lt PosInfinity (dbl q)"
    and "js_le NegInfinity (dbl q)" and "js_lt NegInfinity (dbl q)"
    and "\<not> js_le (dbl q) NegInfinity" and "\<not> js_lt (dbl q) NegInfinity"
    and "\<not> js_le (dbl q) NaN" and "\<not> js_lt (dbl q) NaN"
    and "\<not> js_le NaN (dbl q)" and "\<not> js_lt NaN (dbl q)"
    and "dbl q \<noteq> PosInfinity" and "dbl q \<noteq> NegInfinity"
    and "PosInfinity \<noteq> dbl q" and "NegInfinity \<noteq> dbl q"
  using assms val_the_double [OF assms]
  by (auto simp: dbl_exact val_inject [symmetric])

lemmas js_zero = js_le_dbl_Finite [OF is_double_0]

lemmas js_one = js_le_dbl_Finite [OF is_double_1]

lemma dbl_nonneg: "0 \<le> x \<Longrightarrow> js_le (dbl 0) (dbl x)"
  by (rule dbl_mono)

lemma js_le_PosInfinity [simp]: "js_le a PosInfinity \<longleftrightarrow> a \<noteq> NaN"
  by (cases a) simp_all

lemma js_le_NegInfinity [simp]: "js_le NegInfinity a \<longleftrightarrow> a \<noteq> NaN"
  by (cases a) simp_all

subsection \<open>Monotonicity of the operations\<close>

lemma js_add_nonneg:
  assumes "js_le (dbl 0) a" "js_le (dbl 0) b"
  shows "js_le (dbl 0) (js_add a b)"
  using assms by (cases a; cases b) (simp_all add: js_zero dbl_nonneg)

lemma js_add_increasing:
  assumes "js_le (dbl 0) a" "js_le (dbl 0) w"
  shows "js_le a (js_add a w)"
proof (cases a; cases w)
  fix x y
  assume a: "a = Finite x" and w: "w = Finite y"
  have "0 \<le> val y"
    using assms(2) w by (simp add: js_zero)
  then have "js_le (dbl (val x)) (dbl (val x + val y))"
    by (intro dbl_mono) simp
  then show ?thesis
    using a w by simp
qed (use assms in \<open>simp_all add: js_zero\<close>)

lemma js_add_mono:
  assumes "js_le a b" "js_le (dbl 0) a" "js_le (dbl 0) w"
  shows "js_le (js_add a w) (js_add b w)"
proof (cases a; cases b; cases w)
  fix p q y
  assume a: "a = Finite p" and b: "b = Finite q" and w: "w = Finite y"
  have "val p \<le> val q"
    using assms(1) a b by simp
  then have "js_le (dbl (val p + val y)) (dbl (val q + val y))"
    by (intro dbl_mono) simp
  then show ?thesis
    using a b w by simp
qed (use assms in \<open>simp_all add: js_zero\<close>)

lemma js_div_unit:
  assumes "js_le (dbl 0) p" "js_le p q" "Number_isFinite p" "q \<noteq> dbl 0"
  shows "js_le (dbl 0) (js_div p q) \<and> js_le (js_div p q) (dbl 1)"
proof (cases p; cases q)
  fix x y
  assume p: "p = Finite x" and q: "q = Finite y"
  have x: "0 \<le> val x" "val x \<le> val y"
    using assms(1,2) p q by (simp_all add: js_zero)
  have y: "0 < val y"
    using assms(4) q x by (cases "val y = 0") (simp_all add: js_zero)
  have "0 \<le> val x / val y" "val x / val y \<le> 1"
    using x y by simp_all
  then have "js_le (dbl 0) (dbl (val x / val y))" "js_le (dbl (val x / val y)) (dbl 1)"
    by (auto intro: dbl_mono)
  then show ?thesis
    using p q y by simp
next
  fix x
  assume "p = Finite x" and "q = PosInfinity"
  then show ?thesis
    by (simp add: js_le_dbl)
qed (use assms in \<open>simp_all add: js_zero\<close>)

lemma js_mul_unit:
  assumes "js_le (dbl 0) r" "js_le r (dbl 1)" "Number_isFinite m" "js_le (dbl 0) m"
  shows "js_le (dbl 0) (js_mul r m) \<and> js_le (js_mul r m) m"
proof (cases r; cases m)
  fix x y
  assume r: "r = Finite x" and m: "m = Finite y"
  have x: "0 \<le> val x" "val x \<le> 1" and y: "0 \<le> val y"
    using assms r m by (simp_all add: js_zero js_one)
  have "0 \<le> val x * val y" "val x * val y \<le> val y"
    using x y by (simp_all add: mult_left_le_one_le)
  then have "js_le (dbl 0) (dbl (val x * val y))" "js_le (dbl (val x * val y)) (Finite y)"
    using dbl_mono [of 0 "val x * val y"] dbl_mono [of "val x * val y" "val y"] by simp_all
  then show ?thesis
    using r m by simp
qed (use assms in \<open>simp_all add: js_zero js_one\<close>)

lemma js_mul_nonneg:
  assumes "js_le (dbl 0) a" "Number_isFinite m" "js_lt (dbl 0) m"
  shows "js_le (dbl 0) (js_mul a m)"
proof (cases a; cases m)
  fix x y
  assume a: "a = Finite x" and m: "m = Finite y"
  have "0 \<le> val x * val y"
    using assms a m by (simp add: js_zero)
  then have "js_le (dbl 0) (dbl (val x * val y))"
    by (rule dbl_nonneg)
  then show ?thesis
    using a m by simp
qed (use assms in \<open>simp_all add: js_zero\<close>)

lemma js_mul_mono:
  assumes "js_le a b" "js_le (dbl 0) a" "Number_isFinite m" "js_lt (dbl 0) m"
  shows "js_le (js_mul a m) (js_mul b m)"
proof (cases a; cases b; cases m)
  fix p q y
  assume a: "a = Finite p" and b: "b = Finite q" and m: "m = Finite y"
  have "val p * val y \<le> val q * val y"
    using assms a b m by (simp add: js_zero mult_right_mono)
  then have "js_le (dbl (val p * val y)) (dbl (val q * val y))"
    by (rule dbl_mono)
  then show ?thesis
    using a b m by simp
qed (use assms in \<open>simp_all add: js_zero\<close>)

lemma js_mul_increasing:
  assumes "js_le (dbl 0) a" "Number_isFinite m" "js_le (dbl 1) m"
  shows "js_le a (js_mul a m)"
proof (cases a; cases m)
  fix x y
  assume a: "a = Finite x" and m: "m = Finite y"
  have "0 \<le> val x" "1 \<le> val y"
    using assms a m by (simp_all add: js_zero js_one)
  then have "val x * 1 \<le> val x * val y"
    by (intro mult_left_mono) simp_all
  then have "js_le (dbl (val x)) (dbl (val x * val y))"
    by (intro dbl_mono) simp
  then show ?thesis
    using a m by simp
qed (use assms in \<open>simp_all add: js_zero js_one\<close>)

lemma Math_max_NaN [simp]: "Math_max a NaN = NaN" "Math_max NaN b = NaN"
  by (simp_all add: Math_max_def)

lemma Math_min_NaN [simp]: "Math_min a NaN = NaN" "Math_min NaN b = NaN"
  by (simp_all add: Math_min_def)

lemma Math_max_mono: "js_le a b \<Longrightarrow> lo \<noteq> NaN \<Longrightarrow> js_le (Math_max lo a) (Math_max lo b)"
  by (cases a; cases b; cases lo; simp add: Math_max_def)

lemma Math_min_mono: "js_le a b \<Longrightarrow> hi \<noteq> NaN \<Longrightarrow> js_le (Math_min hi a) (Math_min hi b)"
  by (cases a; cases b; cases hi; simp add: Math_min_def)

lemma Math_max_ge: "lo \<noteq> NaN \<Longrightarrow> v \<noteq> NaN \<Longrightarrow> js_le lo (Math_max lo v)"
  by (cases lo; cases v; simp add: Math_max_def)

lemma Math_min_le: "hi \<noteq> NaN \<Longrightarrow> v \<noteq> NaN \<Longrightarrow> js_le (Math_min hi v) hi"
  by (cases hi; cases v; simp add: Math_min_def)

lemma Math_min_ge:
  "js_le lo hi \<Longrightarrow> js_le lo v \<Longrightarrow> js_le lo (Math_min hi v)"
  by (cases lo; cases hi; cases v; simp add: Math_min_def)

lemma Math_round_mono: "js_le a b \<Longrightarrow> js_le (Math_round a) (Math_round b)"
proof (cases a; cases b)
  fix x y
  assume ab: "js_le a b" and a: "a = Finite x" and b: "b = Finite y"
  then have "\<lfloor>val x + 1 / 2\<rfloor> \<le> \<lfloor>val y + 1 / 2\<rfloor>"
    by (simp add: floor_mono)
  then have "(of_int \<lfloor>val x + 1 / 2\<rfloor> :: rat) \<le> of_int \<lfloor>val y + 1 / 2\<rfloor>"
    by (simp only: of_int_le_iff)
  then show "js_le (Math_round a) (Math_round b)"
    unfolding a b Math_round.simps by (rule dbl_mono)
qed simp_all

lemma Math_round_integer:
  assumes "Number_isInteger m"
  shows "Math_round m = m"
proof -
  obtain y where y: "m = Finite y" "of_int \<lfloor>val y\<rfloor> = val y"
    using assms by (cases m) simp_all
  then obtain k :: int where k: "val y = of_int k"
    by metis
  have "\<lfloor>val y + 1 / 2\<rfloor> = k"
    unfolding k by linarith
  then show ?thesis
    using y k dbl_val [of y] by simp
qed


lemma dbl_between:
  assumes "is_double lo" "is_double hi" "lo \<le> x" "x \<le> hi"
  shows "\<exists>a. dbl x = Finite a \<and> lo \<le> val a \<and> val a \<le> hi"
proof -
  have "js_le (dbl lo) (dbl x)" "js_le (dbl x) (dbl hi)"
    using assms(3,4) by (auto intro: dbl_mono)
  then show ?thesis
    by (cases "dbl x") (simp_all add: js_le_dbl_Finite [OF assms(1)] js_le_dbl_Finite [OF assms(2)])
qed

subsection \<open>Counters\<close>

lemma round_tie_2_53: "round_to_double 9007199254740993 = 9007199254740992"
proof -
  have "ilog2 9007199254740993 = 53"
    by (rule ilog2_unique) simp_all
  then have E: "ulp_exponent 9007199254740993 = 1"
    unfolding ulp_exponent_def by simp
  have "(9007199254740993::rat) / 2 powi 1 = of_int 4503599627370496 + 1 / 2"
    by simp
  then have "round_half_even (9007199254740993 / 2 powi 1) = 4503599627370496"
    using rhe_tie [of "9007199254740993 / 2 powi 1" 4503599627370496] by simp
  then show ?thesis
    unfolding round_to_double_def E by simp
qed

lemma counter_step:
  assumes "js_le (dbl 0) c" "js_le c (dbl 9007199254740992)"
  shows "js_le (dbl 0) (js_add c (dbl 1))" "js_le (js_add c (dbl 1)) (dbl 9007199254740992)"
    "js_le c (js_add c (dbl 1))"
proof -
  have d: "is_double 9007199254740992"
    by simp
  obtain x where x: "c = Finite x" "0 \<le> val x" "val x \<le> 9007199254740992"
    using assms by (cases c) (simp_all add: js_zero js_le_dbl_Finite [OF d])
  have one: "js_le (dbl 0) (dbl 1)"
    by (simp add: js_le_dbl)
  show "js_le (dbl 0) (js_add c (dbl 1))"
    using assms(1) one by (rule js_add_nonneg)
  show "js_le c (js_add c (dbl 1))"
    using assms(1) one by (rule js_add_increasing)
  have "round_to_double (val x + 1) \<le> round_to_double 9007199254740993"
    using x by (intro round_to_double_mono) simp
  then have "round_to_double (val x + 1) \<le> 9007199254740992"
    by (simp only: round_tie_2_53)
  then have "js_le (dbl (round_to_double (val x + 1))) (dbl 9007199254740992)"
    by (rule dbl_mono)
  then show "js_le (js_add c (dbl 1)) (dbl 9007199254740992)"
    using x by (simp add: dbl_1)
qed

lemma counter_finite: "js_le (dbl 0) c \<Longrightarrow> js_le c (dbl 9007199254740992) \<Longrightarrow> Number_isFinite c"
  by (cases c) (simp_all add: js_le_dbl_Finite)

subsection \<open>Evaluation\<close>

lemma floor_rat_numeral [simp]:
  "\<lfloor>numeral a / numeral b :: rat\<rfloor> = numeral a div numeral b"
  "\<lfloor>1 / numeral b :: rat\<rfloor> = 1 div numeral b"
  using floor_divide_of_int_eq [of "numeral a" "numeral b", where ?'a = rat]
    floor_divide_of_int_eq [of 1 "numeral b", where ?'a = rat]
  by simp_all

lemma Math_round_0 [simp]: "Math_round (dbl 0) = dbl 0"
  by (simp add: Math_round_dbl)

named_theorems js_eval

lemmas [js_eval] =
  js_neg_dbl js_add_dbl js_sub_dbl js_mul_dbl js_div_dbl js_lt_dbl js_le_dbl js_gt_def
  js_ge_def Number_isFinite_dbl Number_isInteger_dbl Math_round_dbl Math_max_def Math_min_def dbl_eq_iff
  is_double_minus js_le_dbl_Finite

subsection \<open>Differences of doubles\<close>

lemma double_grain:
  assumes "is_double v"
  shows "\<exists>k. v = of_int k * 2 powi (- 1074)"
proof (cases "v = 0")
  case True
  then show ?thesis by (intro exI [of _ 0]) simp
next
  case False
  define n where "n = ulp_exponent v + 1074"
  define m where "m = round_half_even (v / 2 powi ulp_exponent v)"
  have n: "0 \<le> n"
    unfolding n_def using ulp_exponent_ge [of v] by simp
  have "round_to_double v = of_int m * 2 powi ulp_exponent v"
    unfolding round_to_double_def m_def using False by simp
  then have v: "v = of_int m * 2 powi ulp_exponent v"
    using assms by (simp add: is_double_def)
  have "ulp_exponent v = n + (- 1074)"
    unfolding n_def by simp
  then have "(2::rat) powi ulp_exponent v = 2 powi n * 2 powi (- 1074)"
    by (simp only: powi_add)
  also have "\<dots> = of_int (2 ^ nat n) * 2 powi (- 1074)"
    by (simp only: of_int_powi [OF n])
  finally have "v = of_int m * (of_int (2 ^ nat n) * 2 powi (- 1074))"
    using v by (simp only:)
  then have "v = of_int (m * 2 ^ nat n) * 2 powi (- 1074)"
    by (simp only: of_int_mult mult.assoc)
  then show ?thesis
    by (rule exI)
qed

lemma round_difference_pos:
  assumes "is_double a" "is_double b" "b < a"
  shows "0 < round_to_double (a - b)"
proof -
  obtain ka kb where k: "a = of_int ka * 2 powi (- 1074)" "b = of_int kb * 2 powi (- 1074)"
    using double_grain [OF assms(1)] double_grain [OF assms(2)] by blast
  have "(of_int kb :: rat) < of_int ka"
    using assms(3) unfolding k by (simp add: mult_less_cancel_right)
  then have "kb + 1 \<le> ka"
    by simp
  then have "(of_int (kb + 1) :: rat) \<le> of_int ka"
    by (simp only: of_int_le_iff)
  then have "(1::rat) \<le> of_int ka - of_int kb"
    by simp
  then have "1 * 2 powi (- 1074) \<le> (of_int ka - of_int kb) * (2::rat) powi (- 1074)"
    by (intro mult_right_mono) simp_all
  then have "2 powi (- 1074) \<le> a - b"
    unfolding k by (simp add: algebra_simps)
  then have "round_to_double (2 powi (- 1074)) \<le> round_to_double (a - b)"
    by (rule round_to_double_mono)
  moreover have "round_to_double (2 powi (- 1074)) = 2 powi (- 1074)"
    by (rule round_to_double_power) simp
  moreover have "(0::rat) < 2 powi (- 1074)"
    by (rule powi_pos)
  ultimately show ?thesis
    by linarith
qed

lemma js_sub_Finite: "js_sub (Finite a) (Finite b) = dbl (val a - val b)"
proof -
  have "js_neg (Finite b) = Finite (the_double (- val b))" "val (the_double (- val b)) = - val b"
    using is_double_minus [of "val b"]
    by (simp_all add: dbl_exact val_the_double)
  then show ?thesis
    unfolding js_sub_def by simp
qed

lemma js_sub_pos:
  assumes "js_lt (Finite b) (Finite a)" "0 \<le> val b"
  shows "\<exists>x. js_sub (Finite a) (Finite b) = Finite x \<and> 0 < val x"
proof -
  have lt: "val b < val a"
    using assms(1) by simp
  have pos: "0 < round_to_double (val a - val b)"
    using lt by (intro round_difference_pos) simp_all
  have "js_le (dbl (val a - val b)) (dbl (val a))"
    using assms(2) by (intro dbl_mono) simp
  then have up: "js_le (dbl (val a - val b)) (Finite a)"
    by simp
  show ?thesis
  proof (cases "val a - val b" rule: dbl_cases)
    case pos
    then show ?thesis using up by simp
  next
    case neg
    then show ?thesis using \<open>0 < round_to_double (val a - val b)\<close> powi_pos [of 1024]
      by linarith
  next
    case (fin x)
    then show ?thesis
      using \<open>0 < round_to_double (val a - val b)\<close> by (simp add: js_sub_Finite)
  qed
qed

section \<open>Properties of the scoring engine\<close>

subsection \<open>The normalised configuration\<close>

lemma toPositiveNumber_pos:
  assumes "Number_isFinite fallback" "js_lt (dbl 0) fallback"
  shows "Number_isFinite (toPositiveNumber parsed fallback)"
    and "js_lt (dbl 0) (toPositiveNumber parsed fallback)"
  using assms unfolding toPositiveNumber_def js_gt_def by simp_all

lemma toPositiveInt_pos:
  assumes "Number_isInteger fallback" "js_lt (dbl 0) fallback"
  shows "Number_isInteger (toPositiveInt parsed fallback)"
    and "js_lt (dbl 0) (toPositiveInt parsed fallback)"
  using assms unfolding toPositiveInt_def js_gt_def by simp_all

lemma Number_isInteger_isFinite: "Number_isInteger m \<Longrightarrow> Number_isFinite m"
  by (cases m) simp_all

lemma toBps_range:
  assumes "js_le (dbl 0) fallback" "js_le fallback (dbl 10000)"
  shows "js_le (dbl 0) (toBps parsed fallback) \<and> js_le (toBps parsed fallback) (dbl 10000)"
proof (cases parsed)
  case (Finite x)
  then show ?thesis
    using assms unfolding toBps_def js_gt_def by (auto simp: js_eval)
qed (use assms in \<open>simp_all add: toBps_def\<close>)

lemma toBps_integer:
  assumes "Number_isInteger parsed"
  shows "toBps parsed fallback =
     (if js_lt parsed (dbl 0) then dbl 0
      else if js_gt parsed (dbl 10000) then dbl 10000 else parsed)"
  using assms unfolding toBps_def by simp

lemma default_positive:
  "Number_isFinite (dbl (21 / 20))" "js_lt (dbl 0) (dbl (21 / 20))"
  "Number_isFinite (dbl (9 / 10))" "js_lt (dbl 0) (dbl (9 / 10))"
proof -
  obtain a where a: "dbl (21 / 20) = Finite a" "1 \<le> val a"
    using dbl_between [of 1 2 "21 / 20"] by auto
  obtain b where b: "dbl (9 / 10) = Finite b" "1 / 2 \<le> val b"
    using dbl_between [of "1 / 2" 1 "9 / 10"] is_double_cert [of "1 / 2" 1 "- 1"] by auto
  show "Number_isFinite (dbl (21 / 20))" "js_lt (dbl 0) (dbl (21 / 20))"
    "Number_isFinite (dbl (9 / 10))" "js_lt (dbl 0) (dbl (9 / 10))"
    using a b by (simp_all add: js_zero)
qed

lemma normalizeConfig_maxScore:
  "Number_isInteger (maxScore (normalizeConfig c))" "js_lt (dbl 0) (maxScore (normalizeConfig c))"
  unfolding normalizeConfig_def
  by (simp_all add: toPositiveInt_pos DEFAULT_SCORING_CONFIG_def DEFAULT_MAX_SCORE_def js_eval)

lemma normalizeConfig_weights:
  "Number_isFinite (recentFeedbackWeight (normalizeConfig c))"
  "js_lt (dbl 0) (recentFeedbackWeight (normalizeConfig c))"
  "Number_isFinite (olderFeedbackWeight (normalizeConfig c))"
  "js_lt (dbl 0) (olderFeedbackWeight (normalizeConfig c))"
  "Number_isFinite (confidenceMultiplier (normalizeConfig c))"
  "js_lt (dbl 0) (confidenceMultiplier (normalizeConfig c))"
  "Number_isFinite (flaggedScoreMultiplier (normalizeConfig c))"
  "js_lt (dbl 0) (flaggedScoreMultiplier (normalizeConfig c))"
  unfolding normalizeConfig_def
  by (simp_all add: toPositiveNumber_pos DEFAULT_SCORING_CONFIG_def default_positive js_eval)

lemma normalizeConfig_threshold:
  "negativeFlagThresholdBps (normalizeConfig c) =
     toBps (in_negativeFlagThresholdBps c) (dbl 2000)"
  unfolding normalizeConfig_def by (simp add: DEFAULT_SCORING_CONFIG_def)

subsection \<open>The loop over the entries\<close>

lemma scoreFeedbackDetailed_Inr:
  "scoreFeedbackDetailed fbs config nowMs = Inr r \<Longrightarrow>
   \<exists>t. count_feedback (normalizeConfig config)
          (js_sub nowMs (js_mul (decayWindowDays (normalizeConfig config)) DAY_MS))
          (js_sub nowMs (js_mul (recentNegativeWindowDays (normalizeConfig config)) DAY_MS))
          fbs empty_tally = Inr t \<and> r = score_tally (normalizeConfig config) t"
  unfolding scoreFeedbackDetailed_def Let_def by (auto split: sum.splits)

lemma empty_tally_inv: "tally_inv empty_tally"
  unfolding tally_inv_def empty_tally_def by (simp add: js_eval)

lemma count_entry_inv:
  assumes w: "Number_isFinite (recentFeedbackWeight cfg)" "js_lt (dbl 0) (recentFeedbackWeight cfg)"
      "Number_isFinite (olderFeedbackWeight cfg)" "js_lt (dbl 0) (olderFeedbackWeight cfg)"
    and t: "tally_inv t"
  shows "tally_inv (count_entry cfg dc rc ts p t)"
proof -
  define weight where
    "weight = (if js_ge ts dc then recentFeedbackWeight cfg else olderFeedbackWeight cfg)"
  have weight: "js_le (dbl 0) weight"
    unfolding weight_def using w by (simp add: js_lt_imp_le)
  have wp: "js_le (dbl 0) (weightedPositive t)" "js_le (weightedPositive t) (weightedTotal t)"
    and rn: "js_le (dbl 0) (recentNegativeCount t)"
      "js_le (recentNegativeCount t) (recentCount t)"
    and rc: "js_le (recentCount t) (dbl 9007199254740992)"
    and tc: "js_le (dbl 0) (totalCount t)" "js_le (totalCount t) (dbl 9007199254740992)"
    using t unfolding tally_inv_def by simp_all
  have rc0: "js_le (dbl 0) (recentCount t)"
    using rn by (rule js_le_trans)
  have rn_hi: "js_le (recentNegativeCount t) (dbl 9007199254740992)"
    using rn(2) rc by (rule js_le_trans)
  have one: "js_le (dbl 0) (dbl 1)"
    by (simp add: js_eval)
  have a1: "js_le (dbl 0) (js_add (weightedPositive t) weight)"
    using wp(1) weight by (rule js_add_nonneg)
  have a2: "js_le (js_add (weightedPositive t) weight) (js_add (weightedTotal t) weight)"
    using wp(2,1) weight by (rule js_add_mono)
  have a3: "js_le (weightedPositive t) (js_add (weightedTotal t) weight)"
    using wp(2) js_add_increasing [OF js_le_trans [OF wp] weight] by (rule js_le_trans)
  have b1: "js_le (js_add (recentNegativeCount t) (dbl 1)) (js_add (recentCount t) (dbl 1))"
    using rn(2,1) one by (rule js_add_mono)
  have b2: "js_le (recentNegativeCount t) (js_add (recentCount t) (dbl 1))"
    using rn(2) counter_step(3) [OF rc0 rc] by (rule js_le_trans)
  show ?thesis
    unfolding tally_inv_def count_entry_def Let_def weight_def [symmetric]
    using wp rn rc tc a1 a2 a3 b1 b2 counter_step [OF rc0 rc] counter_step [OF tc]
      counter_step [OF rn(1) rn_hi]
    by simp
qed

lemma count_feedback_inv:
  assumes w: "Number_isFinite (recentFeedbackWeight cfg)" "js_lt (dbl 0) (recentFeedbackWeight cfg)"
      "Number_isFinite (olderFeedbackWeight cfg)" "js_lt (dbl 0) (olderFeedbackWeight cfg)"
  shows "count_feedback cfg dc rc fbs t = Inr t' \<Longrightarrow> tally_inv t \<Longrightarrow> tally_inv t'"
proof (induction fbs arbitrary: t)
  case Nil
  then show ?case by simp
next
  case (Cons fb fbs)
  from Cons.prems(1) obtain ts p where
    step: "count_feedback cfg dc rc fbs (count_entry cfg dc rc ts p t) = Inr t'"
    by (auto split: sum.splits)
  show ?case
    using step count_entry_inv [OF w Cons.prems(2)] by (rule Cons.IH)
qed

lemma count_feedback_append:
  "count_feedback cfg dc rc (fbs @ [e]) t =
     (case count_feedback cfg dc rc fbs t of
        Inl err \<Rightarrow> Inl err
      | Inr t' \<Rightarrow> count_feedback cfg dc rc [e] t')"
  by (induction fbs arbitrary: t) (auto split: sum.splits)

subsection \<open>The result computed from the tally\<close>

lemma round_clamp_bounds:
  assumes "js_le (dbl 0) v" "Number_isInteger m" "js_lt (dbl 0) m"
  shows "js_le (dbl 0) (Math_round (clamp v (dbl 0) m))"
    and "js_le (Math_round (clamp v (dbl 0) m)) m"
proof -
  have m: "js_le (dbl 0) m" "m \<noteq> NaN"
    using assms(3) by (auto simp: js_lt_imp_le)
  have v: "v \<noteq> NaN"
    using assms(1) by auto
  have lo: "js_le (dbl 0) (Math_max (dbl 0) v)"
    using v by (intro Math_max_ge) simp_all
  then have nn: "Math_max (dbl 0) v \<noteq> NaN"
    by auto
  have c: "js_le (dbl 0) (clamp v (dbl 0) m)" "js_le (clamp v (dbl 0) m) m"
    unfolding clamp_def using m lo nn by (simp_all add: Math_min_ge Math_min_le)
  have "js_le (Math_round (dbl 0)) (Math_round (clamp v (dbl 0) m))"
    using c(1) by (rule Math_round_mono)
  then show "js_le (dbl 0) (Math_round (clamp v (dbl 0) m))"
    by (simp add: js_eval)
  have "js_le (Math_round (clamp v (dbl 0) m)) (Math_round m)"
    using c(2) by (rule Math_round_mono)
  then show "js_le (Math_round (clamp v (dbl 0) m)) m"
    by (simp only: Math_round_integer [OF assms(2)])
qed

lemma round_clamp_NaN: "Math_round (clamp NaN lo hi) = NaN"
  by (simp add: clamp_def)

lemma base_raw_bounds:
  assumes M: "Number_isInteger (maxScore cfg)" "js_lt (dbl 0) (maxScore cfg)"
    and t: "tally_inv t" and fin: "Number_isFinite (weightedPositive t)"
    and nz: "weightedTotal t \<noteq> dbl 0"
  shows "js_le (dbl 0) (js_mul (js_div (weightedPositive t) (weightedTotal t)) (maxScore cfg))"
proof -
  have wp: "js_le (dbl 0) (weightedPositive t)" "js_le (weightedPositive t) (weightedTotal t)"
    using t unfolding tally_inv_def by simp_all
  have ratio: "js_le (dbl 0) (js_div (weightedPositive t) (weightedTotal t))"
    "js_le (js_div (weightedPositive t) (weightedTotal t)) (dbl 1)"
    using js_div_unit [OF wp fin nz] by simp_all
  show ?thesis
    using js_mul_unit [OF ratio Number_isInteger_isFinite [OF M(1)] js_lt_imp_le [OF M(2)]] by simp
qed

lemma score_tally_bounds:
  assumes M: "Number_isInteger (maxScore cfg)" "js_lt (dbl 0) (maxScore cfg)"
    and c: "Number_isFinite (confidenceMultiplier cfg)" "js_lt (dbl 0) (confidenceMultiplier cfg)"
    and f: "Number_isFinite (flaggedScoreMultiplier cfg)" "js_lt (dbl 0) (flaggedScoreMultiplier cfg)"
    and t: "tally_inv t" and fin: "Number_isFinite (weightedPositive t)"
  shows "js_le (dbl 0) (score (score_tally cfg t))"
    and "js_le (score (score_tally cfg t)) (maxScore cfg)"
    and "js_le (dbl 0) (baseScore (score_tally cfg t))"
    and "js_le (baseScore (score_tally cfg t)) (maxScore cfg)"
    and "js_le (dbl 0) (confidenceAdjustedScore (score_tally cfg t))"
    and "js_le (confidenceAdjustedScore (score_tally cfg t)) (maxScore cfg)"
proof -
  have all: "js_le (dbl 0) (score (score_tally cfg t))
      \<and> js_le (score (score_tally cfg t)) (maxScore cfg)
      \<and> js_le (dbl 0) (baseScore (score_tally cfg t))
      \<and> js_le (baseScore (score_tally cfg t)) (maxScore cfg)
      \<and> js_le (dbl 0) (confidenceAdjustedScore (score_tally cfg t))
      \<and> js_le (confidenceAdjustedScore (score_tally cfg t)) (maxScore cfg)"
  proof (cases "weightedTotal t = dbl 0")
    case True
    then show ?thesis
      unfolding score_tally_def using M(2) by (simp add: js_eval js_lt_imp_le)
  next
    case False
    define base where
      "base = js_mul (js_div (weightedPositive t) (weightedTotal t)) (maxScore cfg)"
    define adj where
      "adj = (if js_ge (totalCount t) (confidenceThresholdFeedbackCount cfg)
              then js_mul base (confidenceMultiplier cfg) else base)"
    have base: "js_le (dbl 0) base"
      unfolding base_def using M t fin False by (rule base_raw_bounds)
    have adj: "js_le (dbl 0) adj"
      unfolding adj_def using base js_mul_nonneg [OF base c] by simp
    have pen: "js_le (dbl 0) (js_mul adj (flaggedScoreMultiplier cfg))"
      using adj f by (rule js_mul_nonneg)
    show ?thesis
      unfolding score_tally_def Let_def base_def [symmetric] adj_def [symmetric]
      using False round_clamp_bounds [OF base M] round_clamp_bounds [OF adj M]
        round_clamp_bounds [OF pen M]
      by simp
  qed
  show "js_le (dbl 0) (score (score_tally cfg t))"
    and "js_le (score (score_tally cfg t)) (maxScore cfg)"
    and "js_le (dbl 0) (baseScore (score_tally cfg t))"
    and "js_le (baseScore (score_tally cfg t)) (maxScore cfg)"
    and "js_le (dbl 0) (confidenceAdjustedScore (score_tally cfg t))"
    and "js_le (confidenceAdjustedScore (score_tally cfg t)) (maxScore cfg)"
    using all by simp_all
qed

lemma score_tally_overflow:
  assumes t: "tally_inv t" and inf: "weightedPositive t = PosInfinity"
    and c: "Number_isFinite (confidenceMultiplier cfg)" and f: "Number_isFinite (flaggedScoreMultiplier cfg)"
  shows "score (score_tally cfg t) = NaN" "baseScore (score_tally cfg t) = NaN"
    "confidenceAdjustedScore (score_tally cfg t) = NaN"
proof -
  have "js_le PosInfinity (weightedTotal t)"
    using t inf unfolding tally_inv_def by simp
  then have wt: "weightedTotal t = PosInfinity"
    by (cases "weightedTotal t") simp_all
  have nz: "weightedTotal t \<noteq> dbl 0"
    unfolding wt by (simp add: js_zero)
  show "score (score_tally cfg t) = NaN" "baseScore (score_tally cfg t) = NaN"
    "confidenceAdjustedScore (score_tally cfg t) = NaN"
    unfolding score_tally_def Let_def using nz
    by (simp_all add: inf wt round_clamp_NaN)
qed

subsection \<open>Weights whose sums are exact\<close>

lemma count_entry_exact:
  assumes wr: "recentFeedbackWeight cfg = dbl (of_nat wr)"
    and wo: "olderFeedbackWeight cfg = dbl (of_nat wo)"
    and t: "weightedPositive t = dbl (of_nat p)" "weightedTotal t = dbl (of_nat q)" "p \<le> q"
    and small: "q + max wr wo \<le> 2 ^ 53"
  shows "\<exists>p' q'. weightedPositive (count_entry cfg dc rc ts b t) = dbl (of_nat p')
           \<and> weightedTotal (count_entry cfg dc rc ts b t) = dbl (of_nat q')
           \<and> p' \<le> q' \<and> q' \<le> q + max wr wo"
proof -
  define w where "w = (if js_ge ts dc then wr else wo)"
  have w: "(if js_ge ts dc then recentFeedbackWeight cfg else olderFeedbackWeight cfg)
      = dbl (of_nat w)"
    unfolding w_def using wr wo by simp
  have wmax: "w \<le> max wr wo"
    unfolding w_def by simp
  have d: "is_double (of_nat p)" "is_double (of_nat q)" "is_double (of_nat w)"
    using small t(3) wmax by (auto intro!: is_double_of_nat)
  have sums: "js_add (dbl (of_nat p)) (dbl (of_nat w)) = dbl (of_nat (p + w))"
    "js_add (dbl (of_nat q)) (dbl (of_nat w)) = dbl (of_nat (q + w))"
    using d by (simp_all add: js_add_dbl)
  show ?thesis
  proof (cases b)
    case True
    have "weightedPositive (count_entry cfg dc rc ts b t) = dbl (of_nat (p + w))"
      "weightedTotal (count_entry cfg dc rc ts b t) = dbl (of_nat (q + w))"
      unfolding count_entry_def Let_def w t using True sums by simp_all
    moreover have "p + w \<le> q + w" "q + w \<le> q + max wr wo"
      using t(3) wmax by simp_all
    ultimately show ?thesis
      by blast
  next
    case False
    have "weightedPositive (count_entry cfg dc rc ts b t) = dbl (of_nat p)"
      "weightedTotal (count_entry cfg dc rc ts b t) = dbl (of_nat (q + w))"
      unfolding count_entry_def Let_def w t using False sums by simp_all
    moreover have "p \<le> q + w" "q + w \<le> q + max wr wo"
      using t(3) wmax by simp_all
    ultimately show ?thesis
      by blast
  qed
qed

lemma count_feedback_exact:
  assumes wr: "recentFeedbackWeight cfg = dbl (of_nat wr)"
    and wo: "olderFeedbackWeight cfg = dbl (of_nat wo)"
  shows "count_feedback cfg dc rc fbs t = Inr t' \<Longrightarrow>
     weightedPositive t = dbl (of_nat p) \<Longrightarrow> weightedTotal t = dbl (of_nat q) \<Longrightarrow>
     p \<le> q \<Longrightarrow> q + length fbs * max wr wo \<le> 2 ^ 53 \<Longrightarrow>
     \<exists>p' q'. weightedPositive t' = dbl (of_nat p') \<and> weightedTotal t' = dbl (of_nat q')
       \<and> p' \<le> q' \<and> q' \<le> q + length fbs * max wr wo"
proof (induction fbs arbitrary: t p q)
  case Nil
  then show ?case by auto
next
  case (Cons fb fbs)
  from Cons.prems(1) obtain ts b where
    step: "count_feedback cfg dc rc fbs (count_entry cfg dc rc ts b t) = Inr t'"
    by (auto split: sum.splits)
  have small: "q + max wr wo \<le> 2 ^ 53"
    using Cons.prems(5) by simp
  obtain p1 q1 where one:
    "weightedPositive (count_entry cfg dc rc ts b t) = dbl (of_nat p1)"
    "weightedTotal (count_entry cfg dc rc ts b t) = dbl (of_nat q1)"
    "p1 \<le> q1" "q1 \<le> q + max wr wo"
    using count_entry_exact [OF wr wo Cons.prems(2,3,4) small] by blast
  have rest: "q1 + length fbs * max wr wo \<le> 2 ^ 53"
    using one(4) Cons.prems(5) by simp
  obtain p' q' where "weightedPositive t' = dbl (of_nat p')"
    "weightedTotal t' = dbl (of_nat q')" "p' \<le> q'" "q' \<le> q1 + length fbs * max wr wo"
    using Cons.IH [OF step one(1,2,3) rest] by blast
  then show ?case
    using one(4) by (intro exI [of _ p'] exI [of _ q']) simp
qed

lemma exact_from_empty:
  assumes wr: "recentFeedbackWeight cfg = dbl (of_nat wr)"
    and wo: "olderFeedbackWeight cfg = dbl (of_nat wo)"
    and run: "count_feedback cfg dc rc fbs empty_tally = Inr t"
    and small: "length fbs * max wr wo \<le> 2 ^ 53"
  shows "\<exists>p q. weightedPositive t = dbl (of_nat p) \<and> weightedTotal t = dbl (of_nat q)
       \<and> p \<le> q \<and> q \<le> length fbs * max wr wo"
  using count_feedback_exact [OF wr wo run, of 0 0] small by (simp add: empty_tally_def)

subsection \<open>The flag and the rate\<close>

lemma score_tally_rate:
  assumes "tally_inv t"
  shows "js_le (recentNegativeRateBps (score_tally cfg t)) (dbl 10000)"
proof -
  have rn: "js_le (dbl 0) (recentNegativeCount t)"
      "js_le (recentNegativeCount t) (recentCount t)"
    and rc: "js_le (recentCount t) (dbl 9007199254740992)"
    using assms unfolding tally_inv_def by simp_all
  have fin: "Number_isFinite (recentNegativeCount t)"
    using rn(1) js_le_trans [OF rn(2) rc] by (rule counter_finite)
  have rate: "js_le (Math_round
      (js_mul (js_div (recentNegativeCount t) (recentCount t)) (dbl 10000))) (dbl 10000)"
    if nz: "recentCount t \<noteq> dbl 0"
  proof -
    have ratio: "js_le (dbl 0) (js_div (recentNegativeCount t) (recentCount t))"
      "js_le (js_div (recentNegativeCount t) (recentCount t)) (dbl 1)"
      using js_div_unit [OF rn fin nz] by simp_all
    have "js_le (js_mul (js_div (recentNegativeCount t) (recentCount t)) (dbl 10000))
        (dbl 10000)"
      using js_mul_unit [OF ratio, of "dbl 10000"] by (simp add: js_eval)
    then have "js_le (Math_round
        (js_mul (js_div (recentNegativeCount t) (recentCount t)) (dbl 10000)))
        (Math_round (dbl 10000))"
      by (rule Math_round_mono)
    then show ?thesis
      by (simp add: js_eval)
  qed
  show ?thesis
    unfolding score_tally_def Let_def using rate by (simp add: js_eval)
qed

lemma score_tally_flagged:
  "flagged (score_tally cfg t) \<longleftrightarrow>
     js_gt (recentFeedbackCount (score_tally cfg t)) (dbl 0)
     \<and> js_gt (recentNegativeRateBps (score_tally cfg t)) (negativeFlagThresholdBps cfg)"
  unfolding score_tally_def Let_def by (simp add: js_eval)

lemma score_tally_unflagged:
  "\<not> flagged (score_tally cfg t) \<Longrightarrow>
     score (score_tally cfg t) = confidenceAdjustedScore (score_tally cfg t)"
  unfolding score_tally_def Let_def by (auto simp: js_eval)

subsection \<open>Monotonicity\<close>

lemma clamp_mono:
  assumes "js_le a b" "hi \<noteq> NaN"
  shows "js_le (clamp a (dbl 0) hi) (clamp b (dbl 0) hi)"
  unfolding clamp_def using assms by (intro Math_min_mono Math_max_mono) simp_all

lemma ratio_grows:
  fixes p q w :: rat
  assumes "0 \<le> p" "p \<le> q" "0 < q" "0 \<le> w"
  shows "p / q \<le> (p + w) / (q + w)"
proof -
  have "p * (q + w) \<le> (p + w) * q"
    using assms by (simp add: algebra_simps mult_right_mono)
  moreover have "0 < q + w"
    using assms by simp
  ultimately show ?thesis
    using assms(3) by (simp add: frac_le_eq divide_le_cancel pos_divide_le_eq pos_le_divide_eq mult.commute)
qed

lemma score_tally_mono:
  assumes M: "Number_isInteger (maxScore cfg)" "js_lt (dbl 0) (maxScore cfg)"
    and c: "Number_isFinite (confidenceMultiplier cfg)" "js_lt (dbl 0) (confidenceMultiplier cfg)"
    and f: "Number_isFinite (flaggedScoreMultiplier cfg)" "js_lt (dbl 0) (flaggedScoreMultiplier cfg)"
    and t: "weightedPositive t = dbl (of_nat p)" "weightedTotal t = dbl (of_nat q)"
      "p \<le> q" "0 < q"
    and t': "weightedPositive t' = dbl (of_nat (p + w))"
      "weightedTotal t' = dbl (of_nat (q + w))" "q + w \<le> 2 ^ 53"
    and tot: "js_le (totalCount t) (totalCount t')"
    and fl: "flagged (score_tally cfg t') = flagged (score_tally cfg t)"
    and cm: "js_le (dbl 1) (confidenceMultiplier cfg)
             \<or> confidenceApplied (score_tally cfg t') = confidenceApplied (score_tally cfg t)"
  shows "js_le (score (score_tally cfg t)) (score (score_tally cfg t'))"
proof -
  have le: "p \<le> 2 ^ 53" "q \<le> 2 ^ 53" "p + w \<le> 2 ^ 53"
    using t(3) t'(3) by linarith+
  have d: "is_double (of_nat p)" "is_double (of_nat q)" "is_double (of_nat (p + w))"
    "is_double (of_nat (q + w))"
    by (rule is_double_of_nat [OF le(1)] is_double_of_nat [OF le(2)]
          is_double_of_nat [OF le(3)] is_double_of_nat [OF t'(3)])+
  have nz: "weightedTotal t \<noteq> dbl 0" "weightedTotal t' \<noteq> dbl 0"
    unfolding t t' using t(4) d by (simp_all add: dbl_eq_iff)
  define ratio where "ratio = js_div (weightedPositive t) (weightedTotal t)"
  define ratio' where "ratio' = js_div (weightedPositive t') (weightedTotal t')"
  define base where "base = js_mul ratio (maxScore cfg)"
  define base' where "base' = js_mul ratio' (maxScore cfg)"
  define applied where "applied = js_ge (totalCount t) (confidenceThresholdFeedbackCount cfg)"
  define applied' where
    "applied' = js_ge (totalCount t') (confidenceThresholdFeedbackCount cfg)"
  define adj where "adj = (if applied then js_mul base (confidenceMultiplier cfg) else base)"
  define adj' where
    "adj' = (if applied' then js_mul base' (confidenceMultiplier cfg) else base')"
  have r: "ratio = dbl (of_nat p / of_nat q)"
    unfolding ratio_def t using d t(4) by (simp add: js_div_dbl)
  have r': "ratio' = dbl (of_nat (p + w) / of_nat (q + w))"
    unfolding ratio'_def t' using d t(4) by (simp add: js_div_dbl)
  have "(of_nat p :: rat) / of_nat q \<le> (of_nat p + of_nat w) / (of_nat q + of_nat w)"
    using t(3,4) by (intro ratio_grows) simp_all
  then have ratio_le: "js_le ratio ratio'"
    unfolding r r' by (intro dbl_mono) simp
  have ratio0: "js_le (dbl 0) ratio"
    unfolding r by (intro dbl_nonneg) simp
  have Mf: "Number_isFinite (maxScore cfg)"
    using M(1) by (rule Number_isInteger_isFinite)
  have base_le: "js_le base base'"
    unfolding base_def base'_def using ratio_le ratio0 Mf M(2) by (rule js_mul_mono)
  have base0: "js_le (dbl 0) base"
    unfolding base_def using ratio0 Mf M(2) by (rule js_mul_nonneg)
  have base0': "js_le (dbl 0) base'"
    using base0 base_le by (rule js_le_trans)
  have mono_applied: "applied \<Longrightarrow> applied'"
    unfolding applied_def applied'_def js_ge_def using tot by (auto intro: js_le_trans)
  have sel: "confidenceApplied (score_tally cfg t) = applied"
    "confidenceApplied (score_tally cfg t') = applied'"
    unfolding score_tally_def Let_def applied_def applied'_def using nz by simp_all
  have adj_le: "js_le adj adj'"
  proof (cases applied)
    case True
    then have "applied'" by (rule mono_applied)
    then show ?thesis
      unfolding adj_def adj'_def using True base_le base0 c by (simp add: js_mul_mono)
  next
    case False
    show ?thesis
    proof (cases applied')
      case True
      then have "js_le (dbl 1) (confidenceMultiplier cfg)"
        using cm False unfolding sel by simp
      then have "js_le base' (js_mul base' (confidenceMultiplier cfg))"
        using base0' c(1) by (intro js_mul_increasing)
      then show ?thesis
        unfolding adj_def adj'_def using True False base_le by (auto intro: js_le_trans)
    next
      case F2: False
      then show ?thesis
        unfolding adj_def adj'_def using False base_le by simp
    qed
  qed
  have adj0: "js_le (dbl 0) adj"
    unfolding adj_def using base0 js_mul_nonneg [OF base0 c] by simp
  have pen_le: "js_le (js_mul adj (flaggedScoreMultiplier cfg))
      (js_mul adj' (flaggedScoreMultiplier cfg))"
    using adj_le adj0 f by (rule js_mul_mono)
  have Mn: "maxScore cfg \<noteq> NaN"
    using Mf by auto
  have s: "score (score_tally cfg t) =
      Math_round (clamp (if flagged (score_tally cfg t)
        then js_mul adj (flaggedScoreMultiplier cfg) else adj) (dbl 0) (maxScore cfg))"
    unfolding score_tally_def Let_def adj_def applied_def base_def ratio_def using nz by simp
  have s': "score (score_tally cfg t') =
      Math_round (clamp (if flagged (score_tally cfg t')
        then js_mul adj' (flaggedScoreMultiplier cfg) else adj') (dbl 0) (maxScore cfg))"
    unfolding score_tally_def Let_def adj'_def applied'_def base'_def ratio'_def
    using nz by simp
  show ?thesis
    unfolding s s' fl
    using adj_le pen_le Mn by (auto intro!: Math_round_mono clamp_mono)
qed

subsection \<open>Roundings used by the scenarios\<close>

lemma d_c_1: "is_double (1 / 2)"
  by (rule is_double_cert [of _ 4503599627370496 "- 53"]) simp_all

lemma d_c_2: "is_double (4728779608739021 / 4503599627370496)"
  by (rule is_double_cert [of _ 4728779608739021 "- 52"]) simp_all

lemma r_c_2: "dbl (21 / 20) = dbl (4728779608739021 / 4503599627370496)"
  by (rule dbl_nearest [of "- 52" _ 4728779608739021]) simp_all

lemma d_c_3: "is_double (8106479329266893 / 9007199254740992)"
  by (rule is_double_cert [of _ 8106479329266893 "- 53"]) simp_all

lemma r_c_3: "dbl (9 / 10) = dbl (8106479329266893 / 9007199254740992)"
  by (rule dbl_nearest [of "- 53" _ 8106479329266893]) simp_all

lemma d_c_4: "is_double (6004799503160661 / 18014398509481984)"
  by (rule is_double_cert [of _ 6004799503160661 "- 54"]) simp_all

lemma r_c_4: "dbl (1 / 3) = dbl (6004799503160661 / 18014398509481984)"
  by (rule dbl_nearest [of "- 54" _ 6004799503160661]) simp_all

lemma d_c_5: "is_double (5864062014805333 / 17592186044416)"
  by (rule is_double_cert [of _ 5864062014805333 "- 44"]) simp_all

lemma r_c_5: "dbl (750599937895082625 / 2251799813685248) = dbl (5864062014805333 / 17592186044416)"
  by (rule dbl_nearest [of "- 44" _ 5864062014805333]) simp_all

lemma r_c_6: "dbl (47536897508558601026778996740369 / 158456325028528675187087900672) = dbl 300"
  by (rule dbl_nearest [of "- 44" _ 5277655813324800]) simp_all

lemma d_c_7: "is_double (3602879701896397 / 4503599627370496)"
  by (rule is_double_cert [of _ 7205759403792794 "- 53"]) simp_all

lemma r_c_7: "dbl (4 / 5) = dbl (3602879701896397 / 4503599627370496)"
  by (rule dbl_nearest [of "- 53" _ 7205759403792794]) simp_all

lemma d_c_8: "is_double (6433713753386423 / 9007199254740992)"
  by (rule is_double_cert [of _ 6433713753386423 "- 53"]) simp_all

lemma r_c_8: "dbl (5 / 7) = dbl (6433713753386423 / 9007199254740992)"
  by (rule dbl_nearest [of "- 53" _ 6433713753386423]) simp_all

lemma d_c_9: "is_double (6282923587291429 / 8796093022208)"
  by (rule is_double_cert [of _ 6282923587291429 "- 43"]) simp_all

lemma r_c_9: "dbl (804214219173302875 / 1125899906842624) = dbl (6282923587291429 / 8796093022208)"
  by (rule dbl_nearest [of "- 43" _ 6282923587291429]) simp_all

lemma d_c_10: "is_double (2573485501354569 / 9007199254740992)"
  by (rule is_double_cert [of _ 5146971002709138 "- 54"]) simp_all

lemma r_c_10: "dbl (2 / 7) = dbl (2573485501354569 / 9007199254740992)"
  by (rule dbl_nearest [of "- 54" _ 5146971002709138]) simp_all

lemma d_c_11: "is_double (1570730896822857 / 549755813888)"
  by (rule is_double_cert [of _ 6282923587291428 "- 41"]) simp_all

lemma r_c_11: "dbl (1608428438346605625 / 562949953421312) = dbl (1570730896822857 / 549755813888)"
  by (rule dbl_nearest [of "- 41" _ 6282923587291428]) simp_all

lemma d_c_12: "is_double (5026338869833143 / 8796093022208)"
  by (rule is_double_cert [of _ 5026338869833143 "- 43"]) simp_all

lemma r_c_12: "dbl (22636617861218384970260004081313 / 39614081257132168796771975168) = dbl (5026338869833143 / 8796093022208)"
  by (rule dbl_nearest [of "- 43" _ 5026338869833143]) simp_all

lemma r_c_13: "dbl (1013309916158361625 / 2251799813685248) = dbl 450"
  by (rule dbl_nearest [of "- 44" _ 7916483719987200]) simp_all

lemmas roundings =
  d_c_1 d_c_2 r_c_2 d_c_3 r_c_3 d_c_4 r_c_4 d_c_5 r_c_5 r_c_6 d_c_7 r_c_7 d_c_8 r_c_8 d_c_9 r_c_9 d_c_10 r_c_10 d_c_11 r_c_11 d_c_12 r_c_12 r_c_13

subsection \<open>Running the scenarios\<close>

lemma DAY_MS_eval: "DAY_MS = dbl 86400000"
  by (simp add: DAY_MS_def js_eval)

lemma normalize_default:
  "normalizeConfig (config_as_input DEFAULT_SCORING_CONFIG) = DEFAULT_SCORING_CONFIG"
  by (simp add: normalizeConfig_def config_as_input_def DEFAULT_SCORING_CONFIG_def
        DEFAULT_MAX_SCORE_def toPositiveInt_def toPositiveNumber_def toBps_def
        default_positive js_eval)

lemma parse_entry:
  assumes "is_double ts" "0 < ts"
  shows "parseFeedbackTimestampMs (entry p (dbl ts))
      = Inr (if ts < 10 ^ 12 then dbl (ts * 1000) else dbl ts)"
    and "parseFeedbackSentiment (entry p (dbl ts)) = Inr p"
  using assms
  by (simp_all add: parseFeedbackTimestampMs_def parseFeedbackSentiment_def entry_def js_eval)

lemma count_feedback_entry:
  assumes "is_double ts" "0 < ts"
  shows "count_feedback cfg dc rc (entry p (dbl ts) # fbs) t =
     count_feedback cfg dc rc fbs
       (count_entry cfg dc rc (if ts < 10 ^ 12 then dbl (ts * 1000) else dbl ts) p t)"
  using parse_entry [OF assms] by simp

lemma tally1:
  "count_feedback DEFAULT_SCORING_CONFIG (dbl 1768262400000) (dbl 1770249600000)
     [entry True (dbl 1767398400000), entry False (dbl 1770681600000)] empty_tally
   = Inr \<lparr> weightedPositive = dbl 1, weightedTotal = dbl 3, totalCount = dbl 2,
       positiveCount = dbl 1, recentCount = dbl 1, recentNegativeCount = dbl 1 \<rparr>"
  by (simp del: count_feedback.simps(2)
        add: count_feedback_entry count_entry_def Let_def empty_tally_def
        DEFAULT_SCORING_CONFIG_def js_eval)

lemma final1:
  "score_tally DEFAULT_SCORING_CONFIG
     \<lparr> weightedPositive = dbl 1, weightedTotal = dbl 3, totalCount = dbl 2,
       positiveCount = dbl 1, recentCount = dbl 1, recentNegativeCount = dbl 1 \<rparr>
   = \<lparr> score = dbl 300, baseScore = dbl 333, confidenceAdjustedScore = dbl 333,
       flagged = True, totalFeedback = dbl 2, positiveFeedback = dbl 1,
       recentNegativeRateBps = dbl 10000, recentFeedbackCount = dbl 1,
       confidenceApplied = False \<rparr>"
  by (simp add: score_tally_def Let_def clamp_def DEFAULT_SCORING_CONFIG_def
        DEFAULT_MAX_SCORE_def js_eval roundings)

lemma d_heavy: "is_double (2 ^ 1023)"
  by (rule is_double_wide [of _ "2 ^ 52" 971]) simp_all

lemma dbl_overflow: "dbl (2 ^ 1023 + 2 ^ 1023) = PosInfinity"
proof -
  have "round_to_double (2 powi 1024) = 2 powi 1024"
    by (rule round_to_double_power) simp
  moreover have "(2::rat) ^ 1023 + 2 ^ 1023 = 2 powi 1024"
    by simp
  ultimately show ?thesis
    unfolding dbl_def Let_def by simp
qed

lemma normalize_heavy:
  "normalizeConfig heavy_config = DEFAULT_SCORING_CONFIG \<lparr> recentFeedbackWeight := dbl (2 ^ 1023) \<rparr>"
  using d_heavy
  by (simp add: heavy_config_def normalizeConfig_def config_as_input_def
        DEFAULT_SCORING_CONFIG_def DEFAULT_MAX_SCORE_def toPositiveInt_def
        toPositiveNumber_def toBps_def default_positive js_eval)

subsection \<open>Score bounds\<close>




lemma normalize_penalty:
  "normalizeConfig penalty_config =
     DEFAULT_SCORING_CONFIG
       \<lparr> confidenceThresholdFeedbackCount := dbl 999,
         flaggedScoreMultiplier := dbl (8 / 10) \<rparr>"
  by (simp add: penalty_config_def normalizeConfig_def config_as_input_def
        DEFAULT_SCORING_CONFIG_def DEFAULT_MAX_SCORE_def toPositiveInt_def
        toPositiveNumber_def toBps_def default_positive js_eval roundings)

lemma normalize_halving:
  "normalizeConfig halving_config =
     DEFAULT_SCORING_CONFIG
       \<lparr> confidenceThresholdFeedbackCount := dbl 2, confidenceMultiplier := dbl (1 / 2) \<rparr>"
  by (simp add: halving_config_def normalizeConfig_def config_as_input_def
        DEFAULT_SCORING_CONFIG_def DEFAULT_MAX_SCORE_def toPositiveInt_def
        toPositiveNumber_def toBps_def default_positive js_eval roundings)

lemma normalize_saturated:
  "normalizeConfig saturated_config =
     DEFAULT_SCORING_CONFIG \<lparr> negativeFlagThresholdBps := dbl 10000 \<rparr>"
  by (simp add: saturated_config_def normalizeConfig_def config_as_input_def
        DEFAULT_SCORING_CONFIG_def DEFAULT_MAX_SCORE_def toPositiveInt_def
        toPositiveNumber_def toBps_def default_positive js_eval roundings)

text \<open>
  A run of \<open>scoreFeedbackDetailed\<close> on entries with numeric timestamps, from the
  normalised configuration, the two cutoffs, the tally of the loop and its result.
\<close>

lemma run_scenario:
  assumes "normalizeConfig config = cfg"
    and "js_sub nowMs (js_mul (decayWindowDays cfg) DAY_MS) = dc"
    and "js_sub nowMs (js_mul (recentNegativeWindowDays cfg) DAY_MS) = rc"
    and "count_feedback cfg dc rc fbs empty_tally = Inr t"
    and "score_tally cfg t = r"
  shows "scoreFeedbackDetailed fbs config nowMs = Inr r"
  unfolding scoreFeedbackDetailed_def Let_def using assms by simp

lemma default_cut:
  "js_sub (dbl 1770854400000) (js_mul (dbl 30) DAY_MS) = dbl 1768262400000"
  "js_sub (dbl 1770854400000) (js_mul (dbl 7) DAY_MS) = dbl 1770249600000"
  by (simp_all add: DAY_MS_eval js_eval)

lemma run_default:
  assumes "count_feedback DEFAULT_SCORING_CONFIG (dbl 1768262400000) (dbl 1770249600000)
      fbs empty_tally = Inr t"
    and "score_tally DEFAULT_SCORING_CONFIG t = r"
  shows "scoreFeedbackDetailed fbs (config_as_input DEFAULT_SCORING_CONFIG) (dbl 1770854400000)
      = Inr r"
  using normalize_default _ _ assms
  by (rule run_scenario) (simp_all add: DEFAULT_SCORING_CONFIG_def default_cut)

subsection \<open>Adding a recent positive entry\<close>



lemma tally_neg:
  "count_feedback DEFAULT_SCORING_CONFIG (dbl 1768262400000) (dbl 1770249600000)
     [entry False (dbl 1770768000000)] empty_tally
   = Inr \<lparr> weightedPositive = dbl 0, weightedTotal = dbl 2, totalCount = dbl 1,
       positiveCount = dbl 0, recentCount = dbl 1, recentNegativeCount = dbl 1 \<rparr>"
  by (simp del: count_feedback.simps(2)
        add: count_feedback_entry count_entry_def Let_def empty_tally_def
          DEFAULT_SCORING_CONFIG_def js_eval)

lemma tally_neg_pos:
  "count_feedback cfg (dbl 1768262400000) (dbl 1770249600000)
     [entry False (dbl 1770768000000), entry True (dbl 1770768000000)] empty_tally
   = Inr \<lparr> weightedPositive = recentFeedbackWeight cfg,
       weightedTotal = js_add (recentFeedbackWeight cfg) (recentFeedbackWeight cfg),
       totalCount = dbl 2, positiveCount = dbl 1, recentCount = dbl 2,
       recentNegativeCount = dbl 1 \<rparr>"
  if "recentFeedbackWeight cfg = dbl 2" for cfg
  using that
  by (simp del: count_feedback.simps(2)
        add: count_feedback_entry count_entry_def Let_def empty_tally_def js_eval)

lemma score_neg:
  "score_tally DEFAULT_SCORING_CONFIG
     \<lparr> weightedPositive = dbl 0, weightedTotal = dbl 2, totalCount = dbl 1,
       positiveCount = dbl 0, recentCount = dbl 1, recentNegativeCount = dbl 1 \<rparr>
   = \<lparr> score = dbl 0, baseScore = dbl 0, confidenceAdjustedScore = dbl 0, flagged = True,
       totalFeedback = dbl 1, positiveFeedback = dbl 0, recentNegativeRateBps = dbl 10000,
       recentFeedbackCount = dbl 1, confidenceApplied = False \<rparr>"
  by (simp add: score_tally_def Let_def clamp_def DEFAULT_SCORING_CONFIG_def
        DEFAULT_MAX_SCORE_def js_eval roundings)

lemma score_neg_pos:
  "score_tally DEFAULT_SCORING_CONFIG
     \<lparr> weightedPositive = dbl 2, weightedTotal = dbl 4, totalCount = dbl 2,
       positiveCount = dbl 1, recentCount = dbl 2, recentNegativeCount = dbl 1 \<rparr>
   = \<lparr> score = dbl 450, baseScore = dbl 500, confidenceAdjustedScore = dbl 500,
       flagged = True, totalFeedback = dbl 2, positiveFeedback = dbl 1,
       recentNegativeRateBps = dbl 5000, recentFeedbackCount = dbl 2,
       confidenceApplied = False \<rparr>"
  by (simp add: score_tally_def Let_def clamp_def DEFAULT_SCORING_CONFIG_def
        DEFAULT_MAX_SCORE_def js_eval roundings)


subsection \<open>A flagging threshold at the top of the scale\<close>

text \<open>
  C10. \<open>normalizeConfig\<close> puts \<open>negativeFlagThresholdBps\<close> into the range 0 to 10000:
  a configured integer above 10000 becomes 10000 and a negative one becomes 0. The
  \<open>recentNegativeRateBps\<close> of a result never exceeds 10000. So with a configured integer
  threshold of 10000 or more no feedback list is flagged, and the score is the
  confidence-adjusted score without the flagging penalty.
\<close>

theorem threshold_saturation:
  "js_le (dbl 0) (negativeFlagThresholdBps (normalizeConfig config))
   \<and> js_le (negativeFlagThresholdBps (normalizeConfig config)) (dbl 10000)
   \<and> (Number_isInteger (in_negativeFlagThresholdBps config) \<longrightarrow>
         negativeFlagThresholdBps (normalizeConfig config)
         = (if js_lt (in_negativeFlagThresholdBps config) (dbl 0) then dbl 0
            else if js_gt (in_negativeFlagThresholdBps config) (dbl 10000) then dbl 10000
            else in_negativeFlagThresholdBps config))
   \<and> (\<forall>fbs nowMs r.
         scoreFeedbackDetailed fbs config nowMs = Inr r \<longrightarrow>
         js_le (recentNegativeRateBps r) (dbl 10000))
   \<and> (\<forall>fbs nowMs r.
         Number_isInteger (in_negativeFlagThresholdBps config)
         \<and> js_le (dbl 10000) (in_negativeFlagThresholdBps config)
         \<and> scoreFeedbackDetailed fbs config nowMs = Inr r \<longrightarrow>
         \<not> flagged r \<and> score r = confidenceAdjustedScore r)"
proof -
  have range: "js_le (dbl 0) (negativeFlagThresholdBps (normalizeConfig config))
      \<and> js_le (negativeFlagThresholdBps (normalizeConfig config)) (dbl 10000)"
    unfolding normalizeConfig_threshold by (intro toBps_range) (simp_all add: js_eval)
  have thr: "negativeFlagThresholdBps (normalizeConfig config)
      = (if js_lt (in_negativeFlagThresholdBps config) (dbl 0) then dbl 0
         else if js_gt (in_negativeFlagThresholdBps config) (dbl 10000) then dbl 10000
         else in_negativeFlagThresholdBps config)"
    if "Number_isInteger (in_negativeFlagThresholdBps config)"
    unfolding normalizeConfig_threshold using that by (rule toBps_integer)
  have rate: "js_le (recentNegativeRateBps r) (dbl 10000)"
    if run: "scoreFeedbackDetailed fbs config nowMs = Inr r" for fbs nowMs r
  proof -
    obtain t where t: "count_feedback (normalizeConfig config)
          (js_sub nowMs (js_mul (decayWindowDays (normalizeConfig config)) DAY_MS))
          (js_sub nowMs (js_mul (recentNegativeWindowDays (normalizeConfig config)) DAY_MS))
          fbs empty_tally = Inr t" and r: "r = score_tally (normalizeConfig config) t"
      using scoreFeedbackDetailed_Inr [OF run] by blast
    have "tally_inv t"
      using count_feedback_inv [OF normalizeConfig_weights(1-4) t empty_tally_inv] .
    then show ?thesis
      unfolding r by (rule score_tally_rate)
  qed
  have unflagged: "\<not> flagged r \<and> score r = confidenceAdjustedScore r"
    if k: "Number_isInteger (in_negativeFlagThresholdBps config)"
      "js_le (dbl 10000) (in_negativeFlagThresholdBps config)"
      and run: "scoreFeedbackDetailed fbs config nowMs = Inr r" for fbs nowMs r
  proof -
    obtain t where r: "r = score_tally (normalizeConfig config) t"
      using scoreFeedbackDetailed_Inr [OF run] by blast
    have "\<not> js_lt (in_negativeFlagThresholdBps config) (dbl 0)"
    proof
      assume "js_lt (in_negativeFlagThresholdBps config) (dbl 0)"
      then have "js_lt (dbl 10000) (dbl 0)"
        using k(2) by (rule js_le_lt_trans [rotated])
      then show False
        by (simp add: js_eval)
    qed
    moreover have "in_negativeFlagThresholdBps config = dbl 10000"
      if "\<not> js_gt (in_negativeFlagThresholdBps config) (dbl 10000)"
    proof -
      have "in_negativeFlagThresholdBps config \<noteq> NaN"
        using k(2) by auto
      then have "js_le (in_negativeFlagThresholdBps config) (dbl 10000)"
        using that unfolding js_gt_def js_le_def by simp
      then show ?thesis
        using k(2) by (rule js_le_antisym)
    qed
    ultimately have "negativeFlagThresholdBps (normalizeConfig config) = dbl 10000"
      using thr [OF k(1)] by auto
    then have "\<not> flagged r"
      using rate [OF run] unfolding r score_tally_flagged js_gt_def
      by (auto dest: js_lt_not_le)
    then show ?thesis
      unfolding r using score_tally_unflagged by blast
  qed
  show ?thesis
    using range thr rate unflagged by blast
qed

theorem threshold_saturation_witness:
  "Number_isInteger (in_negativeFlagThresholdBps saturated_config)
   \<and> js_le (dbl 10000) (in_negativeFlagThresholdBps saturated_config)
   \<and> negativeFlagThresholdBps (normalizeConfig saturated_config) = dbl 10000
   \<and> scoreFeedbackDetailed [entry False (dbl 1770768000000), entry True (dbl 1770768000000)]
       saturated_config (dbl 1770854400000)
     = Inr \<lparr> score = dbl 500, baseScore = dbl 500, confidenceAdjustedScore = dbl 500,
             flagged = False, totalFeedback = dbl 2, positiveFeedback = dbl 1,
             recentNegativeRateBps = dbl 5000, recentFeedbackCount = dbl 2,
             confidenceApplied = False \<rparr>
   \<and> js_le (dbl 5000) (dbl 10000)"
proof -
  let ?cfg = "DEFAULT_SCORING_CONFIG \<lparr> negativeFlagThresholdBps := dbl 10000 \<rparr>"
  have k: "Number_isInteger (in_negativeFlagThresholdBps saturated_config)"
    "js_le (dbl 10000) (in_negativeFlagThresholdBps saturated_config)"
    by (simp_all add: saturated_config_def config_as_input_def js_eval)
  have cut: "js_sub (dbl 1770854400000) (js_mul (decayWindowDays ?cfg) DAY_MS)
      = dbl 1768262400000"
    "js_sub (dbl 1770854400000) (js_mul (recentNegativeWindowDays ?cfg) DAY_MS)
      = dbl 1770249600000"
    by (simp_all add: DEFAULT_SCORING_CONFIG_def default_cut)
  have t: "count_feedback ?cfg (dbl 1768262400000) (dbl 1770249600000)
      [entry False (dbl 1770768000000), entry True (dbl 1770768000000)] empty_tally
    = Inr \<lparr> weightedPositive = dbl 2, weightedTotal = dbl 4, totalCount = dbl 2,
        positiveCount = dbl 1, recentCount = dbl 2, recentNegativeCount = dbl 1 \<rparr>"
    using tally_neg_pos [of ?cfg] by (simp add: DEFAULT_SCORING_CONFIG_def js_eval)
  have s: "score_tally ?cfg
      \<lparr> weightedPositive = dbl 2, weightedTotal = dbl 4, totalCount = dbl 2,
        positiveCount = dbl 1, recentCount = dbl 2, recentNegativeCount = dbl 1 \<rparr>
    = \<lparr> score = dbl 500, baseScore = dbl 500, confidenceAdjustedScore = dbl 500,
        flagged = False, totalFeedback = dbl 2, positiveFeedback = dbl 1,
        recentNegativeRateBps = dbl 5000, recentFeedbackCount = dbl 2,
        confidenceApplied = False \<rparr>"
    by (simp add: score_tally_def Let_def clamp_def DEFAULT_SCORING_CONFIG_def
          DEFAULT_MAX_SCORE_def js_eval roundings)
  have run: "scoreFeedbackDetailed [entry False (dbl 1770768000000), entry True (dbl 1770768000000)]
       saturated_config (dbl 1770854400000)
     = Inr \<lparr> score = dbl 500, baseScore = dbl 500, confidenceAdjustedScore = dbl 500,
             flagged = False, totalFeedback = dbl 2, positiveFeedback = dbl 1,
             recentNegativeRateBps = dbl 5000, recentFeedbackCount = dbl 2,
             confidenceApplied = False \<rparr>"
    using normalize_saturated cut t s by (rule run_scenario)
  have sat: "Number_isInteger (in_negativeFlagThresholdBps saturated_config) \<longrightarrow>
         negativeFlagThresholdBps (normalizeConfig saturated_config)
         = (if js_lt (in_negativeFlagThresholdBps saturated_config) (dbl 0) then dbl 0
            else if js_gt (in_negativeFlagThresholdBps saturated_config) (dbl 10000)
            then dbl 10000
            else in_negativeFlagThresholdBps saturated_config)"
    using threshold_saturation [of saturated_config] by blast
  have "negativeFlagThresholdBps (normalizeConfig saturated_config) = dbl 10000"
    using sat k by (simp add: saturated_config_def config_as_input_def js_eval)
  then show ?thesis
    using k run by (simp add: js_eval)
qed

subsection \<open>The flagging rule\<close>

lemma count_feedback_parsed:
  assumes "parseFeedbackTimestampMs (entry p ts) = Inr ms"
  shows "count_feedback cfg dc rc (entry p ts # fbs) t
      = count_feedback cfg dc rc fbs (count_entry cfg dc rc ms p t)"
  using assms by (simp add: parseFeedbackSentiment_def entry_def)

lemma parse_entry_time:
  "parseFeedbackTimestampMs (entry p ts) = parseFeedbackTimestampMs (entry q ts)"
  by (simp add: parseFeedbackTimestampMs_def entry_def)

lemma day_old_entry:
  assumes fin: "Number_isFinite nowMs" and lt: "js_lt DAY_MS nowMs"
  shows "\<exists>ms. (\<forall>p. parseFeedbackTimestampMs (entry p (js_sub nowMs DAY_MS)) = Inr ms)
      \<and> js_ge ms (js_sub nowMs (js_mul (dbl 30) DAY_MS))
      \<and> js_ge ms (js_sub nowMs (js_mul (dbl 7) DAY_MS))"
proof -
  obtain n where n: "nowMs = Finite n"
    using fin by (cases nowMs) simp_all
  define a where "a = val n"
  have a: "is_double a" "nowMs = dbl a"
    unfolding a_def n by simp_all
  have day: "DAY_MS = Finite (the_double 86400000)" "val (the_double 86400000) = 86400000"
    unfolding DAY_MS_eval by (simp_all add: dbl_exact val_the_double)
  obtain x where x: "js_sub nowMs DAY_MS = Finite x" "0 < val x"
    using js_sub_pos [of "the_double 86400000" n] lt unfolding n day by auto
  define b where "b = val x"
  have b: "is_double b" "0 < b" "js_sub nowMs DAY_MS = dbl b"
    unfolding b_def using x by simp_all
  have ts: "dbl b = dbl (a - 86400000)"
    using b(3) unfolding a(2) DAY_MS_eval using a(1) by (simp add: js_sub_dbl)
  define ms where "ms = (if b < 10 ^ 12 then dbl (b * 1000) else dbl b)"
  have parse: "parseFeedbackTimestampMs (entry p (js_sub nowMs DAY_MS)) = Inr ms" for p
    unfolding b(3) ms_def using b(1,2) by (rule parse_entry(1))
  have up: "js_le (dbl b) ms"
    unfolding ms_def using b(2) by (auto intro!: dbl_mono js_le_refl)
  have dc: "js_sub nowMs (js_mul (dbl 30) DAY_MS) = dbl (a - 2592000000)"
    and rc: "js_sub nowMs (js_mul (dbl 7) DAY_MS) = dbl (a - 604800000)"
    unfolding a(2) DAY_MS_eval using a(1) by (simp_all add: js_eval)
  have "js_le (dbl (a - 2592000000)) (dbl (a - 86400000))"
    "js_le (dbl (a - 604800000)) (dbl (a - 86400000))"
    by (rule dbl_mono, simp)+
  then have "js_le (js_sub nowMs (js_mul (dbl 30) DAY_MS)) ms"
    "js_le (js_sub nowMs (js_mul (dbl 7) DAY_MS)) ms"
    unfolding dc rc using up unfolding ts by (blast intro: js_le_trans)+
  then show ?thesis
    using parse unfolding js_ge_def by blast
qed

lemma penalty_tally:
  assumes "\<And>p. parseFeedbackTimestampMs (entry p ts) = Inr ms"
    and "js_ge ms dc" "js_ge ms rc"
    and "recentFeedbackWeight cfg = dbl 2"
  shows "count_feedback cfg dc rc
      [entry True ts, entry True ts, entry True ts, entry True ts, entry True ts,
       entry False ts, entry False ts] empty_tally
    = Inr \<lparr> weightedPositive = dbl 10, weightedTotal = dbl 14, totalCount = dbl 7,
        positiveCount = dbl 5, recentCount = dbl 7, recentNegativeCount = dbl 2 \<rparr>"
  using assms(2-)
  by (simp del: count_feedback.simps(2)
        add: count_feedback_parsed [OF assms(1)] count_entry_def Let_def empty_tally_def
          js_add_dbl)

lemma penalty_score:
  "score_tally
     (DEFAULT_SCORING_CONFIG
        \<lparr> confidenceThresholdFeedbackCount := dbl 999,
          flaggedScoreMultiplier := dbl (8 / 10) \<rparr>)
     \<lparr> weightedPositive = dbl 10, weightedTotal = dbl 14, totalCount = dbl 7,
       positiveCount = dbl 5, recentCount = dbl 7, recentNegativeCount = dbl 2 \<rparr>
   = \<lparr> score = dbl 571, baseScore = dbl 714, confidenceAdjustedScore = dbl 714,
       flagged = True, totalFeedback = dbl 7, positiveFeedback = dbl 5,
       recentNegativeRateBps = dbl 2857, recentFeedbackCount = dbl 7,
       confidenceApplied = False \<rparr>"
  by (simp add: score_tally_def Let_def clamp_def DEFAULT_SCORING_CONFIG_def
        DEFAULT_MAX_SCORE_def js_eval roundings)

text \<open>
  C6. For five positive and two negative entries, each one day old, under the
  configuration \<open>recentNegativeWindowDays = 7\<close>, \<open>negativeFlagThresholdBps = 2000\<close>,
  \<open>flaggedScoreMultiplier = 0.8\<close>, \<open>confidenceThresholdFeedbackCount = 999\<close> and defaults
  elsewhere, \<open>scoreFeedbackDetailed\<close> returns \<open>baseScore = 714\<close>, \<open>flagged = true\<close>,
  \<open>recentNegativeRateBps = 2857\<close> and \<open>score = 571\<close>, whatever finite \<open>nowMs\<close> is (it has to
  exceed one day, for the timestamps to be positive numbers). And every result is flagged
  exactly when \<open>recentFeedbackCount > 0\<close> and \<open>recentNegativeRateBps\<close> is strictly above the
  normalised \<open>negativeFlagThresholdBps\<close>.
\<close>

theorem flagging_penalty:
  "(\<forall>nowMs. Number_isFinite nowMs \<and> js_lt DAY_MS nowMs \<longrightarrow>
      scoreFeedbackDetailed (five_two nowMs) penalty_config nowMs
      = Inr \<lparr> score = dbl 571, baseScore = dbl 714, confidenceAdjustedScore = dbl 714,
              flagged = True, totalFeedback = dbl 7, positiveFeedback = dbl 5,
              recentNegativeRateBps = dbl 2857, recentFeedbackCount = dbl 7,
              confidenceApplied = False \<rparr>)
   \<and> (\<forall>fbs config nowMs r.
        scoreFeedbackDetailed fbs config nowMs = Inr r \<longrightarrow>
        (flagged r \<longleftrightarrow>
           js_gt (recentFeedbackCount r) (dbl 0)
           \<and> js_gt (recentNegativeRateBps r) (negativeFlagThresholdBps (normalizeConfig config))))"
proof (intro conjI allI impI)
  fix nowMs :: number
  assume now: "Number_isFinite nowMs \<and> js_lt DAY_MS nowMs"
  let ?cfg = "DEFAULT_SCORING_CONFIG
    \<lparr> confidenceThresholdFeedbackCount := dbl 999, flaggedScoreMultiplier := dbl (8 / 10) \<rparr>"
  obtain ms where ms: "\<And>p. parseFeedbackTimestampMs (entry p (js_sub nowMs DAY_MS)) = Inr ms"
    "js_ge ms (js_sub nowMs (js_mul (dbl 30) DAY_MS))"
    "js_ge ms (js_sub nowMs (js_mul (dbl 7) DAY_MS))"
    using day_old_entry [of nowMs] now by blast
  have w: "recentFeedbackWeight ?cfg = dbl 2"
    by (simp add: DEFAULT_SCORING_CONFIG_def)
  have cut: "js_sub nowMs (js_mul (decayWindowDays ?cfg) DAY_MS)
      = js_sub nowMs (js_mul (dbl 30) DAY_MS)"
    "js_sub nowMs (js_mul (recentNegativeWindowDays ?cfg) DAY_MS)
      = js_sub nowMs (js_mul (dbl 7) DAY_MS)"
    by (simp_all add: DEFAULT_SCORING_CONFIG_def)
  have tally: "count_feedback ?cfg (js_sub nowMs (js_mul (dbl 30) DAY_MS))
      (js_sub nowMs (js_mul (dbl 7) DAY_MS)) (five_two nowMs) empty_tally
    = Inr \<lparr> weightedPositive = dbl 10, weightedTotal = dbl 14, totalCount = dbl 7,
        positiveCount = dbl 5, recentCount = dbl 7, recentNegativeCount = dbl 2 \<rparr>"
    unfolding five_two_def using ms w by (rule penalty_tally)
  show "scoreFeedbackDetailed (five_two nowMs) penalty_config nowMs
      = Inr \<lparr> score = dbl 571, baseScore = dbl 714, confidenceAdjustedScore = dbl 714,
              flagged = True, totalFeedback = dbl 7, positiveFeedback = dbl 5,
              recentNegativeRateBps = dbl 2857, recentFeedbackCount = dbl 7,
              confidenceApplied = False \<rparr>"
    using normalize_penalty cut tally penalty_score by (rule run_scenario)
next
  fix fbs config nowMs r
  assume "scoreFeedbackDetailed fbs config nowMs = Inr r"
  then obtain t where "r = score_tally (normalizeConfig config) t"
    using scoreFeedbackDetailed_Inr by blast
  then show "flagged r \<longleftrightarrow>
      js_gt (recentFeedbackCount r) (dbl 0)
      \<and> js_gt (recentNegativeRateBps r) (negativeFlagThresholdBps (normalizeConfig config))"
    using score_tally_flagged by simp
qed

theorem flagging_penalty_witness:
  "Number_isFinite (dbl 1770854400000) \<and> js_lt DAY_MS (dbl 1770854400000)
   \<and> scoreFeedbackDetailed (five_two (dbl 1770854400000)) penalty_config (dbl 1770854400000)
     = Inr \<lparr> score = dbl 571, baseScore = dbl 714, confidenceAdjustedScore = dbl 714,
             flagged = True, totalFeedback = dbl 7, positiveFeedback = dbl 5,
             recentNegativeRateBps = dbl 2857, recentFeedbackCount = dbl 7,
             confidenceApplied = False \<rparr>
   \<and> js_gt (dbl 2857) (negativeFlagThresholdBps (normalizeConfig penalty_config))"
proof -
  have day: "Number_isFinite (dbl 1770854400000) \<and> js_lt DAY_MS (dbl 1770854400000)"
    by (simp add: DAY_MS_eval js_eval)
  have run: "scoreFeedbackDetailed (five_two (dbl 1770854400000)) penalty_config
       (dbl 1770854400000)
     = Inr \<lparr> score = dbl 571, baseScore = dbl 714, confidenceAdjustedScore = dbl 714,
             flagged = True, totalFeedback = dbl 7, positiveFeedback = dbl 5,
             recentNegativeRateBps = dbl 2857, recentFeedbackCount = dbl 7,
             confidenceApplied = False \<rparr>"
    using flagging_penalty day by blast
  have "js_gt (dbl 2857) (negativeFlagThresholdBps (normalizeConfig penalty_config))"
    using flagging_penalty run by fastforce
  then show ?thesis
    using day run by simp
qed

section \<open>Properties of the trust client\<close>

subsection \<open>The fields of the envelopes\<close>

lemma toNumber_finite: "toNumber v = Some p \<Longrightarrow> Number_isFinite p"
  by (auto simp: toNumber_def Let_def split: if_splits)

lemma toNonNegativeNumber_finite: "toNonNegativeNumber v = Some p \<Longrightarrow> Number_isFinite p"
  by (auto simp: toNonNegativeNumber_def dest: toNumber_finite split: option.splits if_splits)

lemma toNonNegativeNumber_zero:
  "toNonNegativeNumber v = Some (dbl 0) \<longleftrightarrow> v = Num (dbl 0) \<or> v = Null"
  by (cases v)
    (auto simp: toNonNegativeNumber_def toNumber_def Let_def js_eval split: if_splits)

lemma toFixed4_dbl:
  assumes "is_double x" "\<bar>x\<bar> < 10 ^ 21"
  shows "toFixed4 (dbl x) = dbl (sgn x * of_int \<lfloor>\<bar>x\<bar> * 10000 + 1 / 2\<rfloor> / 10000)"
  using assms by (simp add: toFixed4_def dbl_exact val_the_double)

lemma resolveRecommendation_table: "resolveRecommendation v = recommendation_table v"
  by (cases v) (simp_all add: resolveRecommendation_def recommendation_table_def)

lemma buildSuccessResponse_verdict:
  "r_verdict (buildSuccessResponse a sc conf src dat) =
     verdict_rule (r_score (buildSuccessResponse a sc conf src dat))
       (data_totalFeedback dat) (data_positiveFeedback dat)
       (r_confidence (buildSuccessResponse a sc conf src dat))"
proof -
  let ?e = "buildSuccessResponse a sc conf src dat"
  have s: "r_score ?e = toNonNegativeNumber sc"
    and c: "r_confidence ?e = clampConfidence (toNumber conf)"
    and v: "r_verdict ?e =
      (if toNonNegativeNumber sc = Some (dbl 0)
          \<and> ((toNonNegativeNumber (data_totalFeedback dat) = Some (dbl 0)
               \<and> toNonNegativeNumber (data_positiveFeedback dat) = Some (dbl 0))
              \<or> clampConfidence (toNumber conf) = Some (dbl 0))
       then UNKNOWN else resolveVerdict (toNonNegativeNumber sc))"
    by (simp_all add: buildSuccessResponse_def Let_def)
  show ?thesis
  proof (cases "toNonNegativeNumber sc")
    case None
    then show ?thesis
      unfolding s c v verdict_rule_def resolveVerdict_def by simp
  next
    case (Some p)
    then have "p \<noteq> NaN"
      using toNonNegativeNumber_finite [of sc p] by auto
    then show ?thesis
      unfolding s c v verdict_rule_def resolveVerdict_def using Some
      by (simp add: toNonNegativeNumber_zero [of "data_totalFeedback dat"]
         toNonNegativeNumber_zero [of "data_positiveFeedback dat"])
  qed
qed

lemma buildSuccessResponse_fields:
  "r_recommendation (buildSuccessResponse a sc conf src dat) =
     recommendation_table (r_verdict (buildSuccessResponse a sc conf src dat))"
  "r_data (buildSuccessResponse a sc conf src dat) = Some dat"
  "r_source (buildSuccessResponse a sc conf src dat) = src"
  "r_status (buildSuccessResponse a sc conf src dat) = STATUS_OK"
  "r_fallback (buildSuccessResponse a sc conf src dat) = None"
  by (simp_all add: buildSuccessResponse_def Let_def resolveRecommendation_table)

lemma withDegradedContext_fields:
  "r_verdict (withDegradedContext e c m) = r_verdict e"
  "r_recommendation (withDegradedContext e c m) = r_recommendation e"
  "r_score (withDegradedContext e c m) = r_score e"
  "r_confidence (withDegradedContext e c m) = r_confidence e"
  "r_data (withDegradedContext e c m) = r_data e"
  "r_source (withDegradedContext e c m) = r_source e"
  "r_status (withDegradedContext e c m) = STATUS_DEGRADED"
  "r_fallback (withDegradedContext e c m) = Some c"
  by (simp_all add: withDegradedContext_def)

lemma buildStructuredFailure_data: "r_data (buildStructuredFailure a src fb st msg) = None"
  by (simp add: buildStructuredFailure_def)

subsection \<open>The walk over the sources\<close>

lemma try_sources_Responded:
  "try_sources rem config kind a srcs prior = Responded e \<Longrightarrow>
     \<exists>sc conf src dat.
       e = buildSuccessResponse a sc conf src dat
       \<or> (\<exists>c m. e = withDegradedContext (buildSuccessResponse a sc conf src dat) c m)"
proof (induction srcs arbitrary: prior)
  case Nil
  then show ?case by simp
next
  case (Cons s srcs)
  show ?case
  proof (cases "attempt rem config kind a s")
    case (Inl err)
    with Cons.prems have "try_sources rem config kind a srcs
        (Some (classify s err, toErrorMessage err)) = Responded e"
      by simp
    then show ?thesis by (rule Cons.IH)
  next
    case (Inr result)
    with Cons.prems have "e = buildSuccessResponse a (result_score result)
          (result_confidence result) s (result_data result)
        \<or> (\<exists>c m. e = withDegradedContext (buildSuccessResponse a (result_score result)
          (result_confidence result) s (result_data result)) c m)"
      by (cases prior) (auto simp: Let_def)
    then show ?thesis by blast
  qed
qed

lemma queryTrust_success:
  assumes "r_data (queryTrust rem config kind raw options) = Some dat"
  shows "\<exists>a sc conf src.
       queryTrust rem config kind raw options = buildSuccessResponse a sc conf src dat
       \<or> (\<exists>c m. queryTrust rem config kind raw options
             = withDegradedContext (buildSuccessResponse a sc conf src dat) c m)"
proof -
  let ?mode = "case opt_mode options of Some m \<Rightarrow> m | None \<Rightarrow> defaultMode config"
  let ?seq = "resolveSequence ?mode config options"
  obtain n where
    parse: "parseAgentIdParam (case raw of Some s \<Rightarrow> s | None \<Rightarrow> ''undefined'') = Inr n"
    using assms unfolding queryTrust_def Let_def
    by (cases "parseAgentIdParam (case raw of Some s \<Rightarrow> s | None \<Rightarrow> ''undefined'')")
      (simp_all add: buildStructuredFailure_data)
  obtain e where walk: "try_sources rem config kind (decimal n) ?seq None = Responded e"
    and e: "queryTrust rem config kind raw options = e"
    using assms parse unfolding queryTrust_def Let_def
    by (cases "try_sources rem config kind (decimal n) ?seq None")
      (auto simp: buildStructuredFailure_data split: option.splits prod.splits)
  obtain sc conf src dat' where shape:
    "e = buildSuccessResponse (decimal n) sc conf src dat'
     \<or> (\<exists>c m. e = withDegradedContext (buildSuccessResponse (decimal n) sc conf src dat') c m)"
    using try_sources_Responded [OF walk] by blast
  then have "r_data e = Some dat'"
    by (auto simp: buildSuccessResponse_fields withDegradedContext_fields)
  then have "dat' = dat"
    using assms e by simp
  then show ?thesis
    using shape e by blast
qed

lemma try_sources_degraded:
  assumes "failed \<noteq> []"
    and "\<forall>s \<in> set failed. \<exists>e. attempt rem config kind a s = Inl e"
    and "attempt rem config kind a (last failed) = Inl err"
    and "attempt rem config kind a src = Inr result"
  shows "try_sources rem config kind a (failed @ src # rest) prior
      = Responded (withDegradedContext
          (buildSuccessResponse a (result_score result) (result_confidence result) src
             (result_data result))
          (classify (last failed) err) (toErrorMessage err))"
  using assms
proof (induction failed arbitrary: prior)
  case Nil
  then show ?case by simp
next
  case (Cons s failed)
  show ?case
  proof (cases "failed = []")
    case True
    then show ?thesis
      using Cons.prems by (simp add: Let_def)
  next
    case False
    obtain e where e: "attempt rem config kind a s = Inl e"
      using Cons.prems(2) by auto
    have "try_sources rem config kind a (failed @ src # rest)
        (Some (classify s e, toErrorMessage e))
      = Responded (withDegradedContext
          (buildSuccessResponse a (result_score result) (result_confidence result) src
             (result_data result))
          (classify (last failed) err) (toErrorMessage err))"
      using Cons.prems False by (intro Cons.IH) simp_all
    then show ?thesis
      using e False by simp
  qed
qed

lemma queryTrust_degraded:
  assumes parse: "parseAgentIdParam raw = Inr n"
    and seq: "resolveSequence
        (case opt_mode options of Some m \<Rightarrow> m | None \<Rightarrow> defaultMode config)
        config options = failed @ src # rest"
    and failed: "failed \<noteq> []"
      "\<forall>s \<in> set failed. \<exists>e. attempt rem config kind (decimal n) s = Inl e"
    and err: "attempt rem config kind (decimal n) (last failed) = Inl err"
    and ok: "attempt rem config kind (decimal n) src = Inr result"
  shows "queryTrust rem config kind (Some raw) options
      = withDegradedContext
          (buildSuccessResponse (decimal n) (result_score result) (result_confidence result)
             src (result_data result))
          (classify (last failed) err) (toErrorMessage err)"
  unfolding queryTrust_def Let_def
  using try_sources_degraded [OF failed err ok] by (simp add: parse seq)

lemma queryTrust_first:
  assumes parse: "parseAgentIdParam raw = Inr n"
    and seq: "resolveSequence
        (case opt_mode options of Some m \<Rightarrow> m | None \<Rightarrow> defaultMode config)
        config options = src # rest"
    and ok: "attempt rem config kind (decimal n) src = Inr result"
  shows "queryTrust rem config kind (Some raw) options
      = buildSuccessResponse (decimal n) (result_score result) (result_confidence result)
          src (result_data result)"
  unfolding queryTrust_def Let_def by (simp add: parse seq ok)

subsection \<open>The scenario inputs\<close>

lemma decimal_7: "decimal 7 = ''7''"
  by (simp add: decimal.simps)

lemma parse_7: "parseAgentIdParam ''7'' = Inr 7"
  by (simp add: parseAgentIdParam_def digits_value_def is_digit_def UINT256_MAX_def)

lemma default_sequence:
  "resolveSequence
     (case opt_mode no_options of Some m \<Rightarrow> m | None \<Rightarrow> defaultMode client_defaults)
     client_defaults no_options = [API_PAID, API_DEMO, TRUSTSCORE_CONTRACT]"
  by (simp add: resolveSequence_def client_defaults_def no_options_def)

lemma two_failures_attempts:
  "attempt two_failures client_defaults ScoreQuery ''7'' API_PAID
     = Inl (http_error 402 ''payment required'')"
  "attempt two_failures client_defaults ScoreQuery ''7'' API_DEMO
     = Inl (http_error 500 ''upstream exploded'')"
  "attempt two_failures client_defaults ScoreQuery ''7'' TRUSTSCORE_CONTRACT
     = queryContract two_failures client_defaults ScoreQuery ''7''"
  by (simp_all add: attempt_def queryApi_def requestJson_def buildHttpError_def Let_def
        two_failures_def error_response_def empty_body_def http_error_def)

lemma two_failures_contract:
  "\<exists>result. queryContract two_failures client_defaults ScoreQuery ''7'' = Inr result"
  by (simp add: queryContract_def two_failures_def Let_def)

lemma two_failures_classes:
  "classify API_PAID (http_error 402 ''payment required'') = PAYMENT_UNAVAILABLE"
  "classify API_DEMO (http_error 500 ''upstream exploded'') = ORACLE_UNAVAILABLE"
  by (simp_all add: classify_def mapApiFailure_def http_error_def)

lemma two_failures_response:
  "\<exists>result :: query_result.
     queryTrust two_failures client_defaults ScoreQuery (Some ''7'') no_options
     = withDegradedContext
         (buildSuccessResponse ''7'' (result_score result) (result_confidence result)
            TRUSTSCORE_CONTRACT (result_data result))
         ORACLE_UNAVAILABLE (toErrorMessage (http_error 500 ''upstream exploded''))"
proof -
  obtain result where
    ok: "attempt two_failures client_defaults ScoreQuery (decimal 7) TRUSTSCORE_CONTRACT
      = Inr result"
    using two_failures_contract two_failures_attempts(3) decimal_7 by auto
  have seq: "resolveSequence
      (case opt_mode no_options of Some m \<Rightarrow> m | None \<Rightarrow> defaultMode client_defaults)
      client_defaults no_options = [API_PAID, API_DEMO] @ TRUSTSCORE_CONTRACT # []"
    using default_sequence by simp
  have failed: "\<forall>s \<in> set [API_PAID, API_DEMO].
      \<exists>e. attempt two_failures client_defaults ScoreQuery (decimal 7) s = Inl e"
    using two_failures_attempts(1,2) decimal_7 by simp
  have err: "attempt two_failures client_defaults ScoreQuery (decimal 7)
      (last [API_PAID, API_DEMO]) = Inl (http_error 500 ''upstream exploded'')"
    using two_failures_attempts(2) decimal_7 by simp
  have "queryTrust two_failures client_defaults ScoreQuery (Some ''7'') no_options
     = withDegradedContext
         (buildSuccessResponse ''7'' (result_score result) (result_confidence result)
            TRUSTSCORE_CONTRACT (result_data result))
         ORACLE_UNAVAILABLE (toErrorMessage (http_error 500 ''upstream exploded''))"
    using queryTrust_degraded [OF parse_7 seq _ failed err ok] two_failures_classes(2)
      decimal_7 by simp
  then show ?thesis
    by blast
qed

subsection \<open>Verdict and recommendation\<close>




subsection \<open>Degraded responses\<close>

text \<open>
  C3, as stated, fails when two sources fail with different classifications before a third
  succeeds: the paid API answers 402 (\<open>payment_unavailable\<close>), the demo API answers 500
  (\<open>oracle_unavailable\<close>), the contract read succeeds, and the envelope carries
  \<open>oracle_unavailable\<close>, the classification of the second failure, not of the first.
\<close>

theorem degraded_counterexample:
  "resolveSequence
     (case opt_mode no_options of Some m \<Rightarrow> m | None \<Rightarrow> defaultMode client_defaults)
     client_defaults no_options = [API_PAID, API_DEMO, TRUSTSCORE_CONTRACT]
   \<and> attempt two_failures client_defaults ScoreQuery ''7'' API_PAID
     = Inl (http_error 402 ''payment required'')
   \<and> classify API_PAID (http_error 402 ''payment required'') = PAYMENT_UNAVAILABLE
   \<and> r_status (queryTrust two_failures client_defaults ScoreQuery (Some ''7'') no_options)
     = STATUS_DEGRADED
   \<and> r_source (queryTrust two_failures client_defaults ScoreQuery (Some ''7'') no_options)
     = TRUSTSCORE_CONTRACT
   \<and> r_fallback (queryTrust two_failures client_defaults ScoreQuery (Some ''7'') no_options)
     = Some ORACLE_UNAVAILABLE"
proof -
  obtain result :: query_result where
    e: "queryTrust two_failures client_defaults ScoreQuery (Some ''7'') no_options
     = withDegradedContext
         (buildSuccessResponse ''7'' (result_score result) (result_confidence result)
            TRUSTSCORE_CONTRACT (result_data result))
         ORACLE_UNAVAILABLE (toErrorMessage (http_error 500 ''upstream exploded''))"
    using two_failures_response by blast
  show ?thesis
    unfolding e
    by (simp add: default_sequence two_failures_attempts(1) two_failures_classes(1)
          buildSuccessResponse_fields withDegradedContext_fields)
qed

text \<open>
  C3, amended. When the sources tried before \<open>src\<close> all fail (there is at least one) and
  \<open>src\<close> succeeds, the envelope has status \<open>degraded\<close>, names \<open>src\<close> as its source, and
  carries in \<open>fallback\<close> the classification of the last failed attempt, the one just before
  the success.
\<close>

theorem degraded_reports_latest_failure:
  assumes "parseAgentIdParam raw = Inr n"
    and "resolveSequence
        (case opt_mode options of Some m \<Rightarrow> m | None \<Rightarrow> defaultMode config)
        config options = failed @ src # rest"
    and "failed \<noteq> []"
    and "\<forall>s \<in> set failed. \<exists>e. attempt rem config kind (decimal n) s = Inl e"
    and "attempt rem config kind (decimal n) (last failed) = Inl err"
    and "attempt rem config kind (decimal n) src = Inr result"
  shows "r_status (queryTrust rem config kind (Some raw) options) = STATUS_DEGRADED
    \<and> r_source (queryTrust rem config kind (Some raw) options) = src
    \<and> r_fallback (queryTrust rem config kind (Some raw) options)
      = Some (classify (last failed) err)"
  unfolding queryTrust_degraded [OF assms]
  by (simp add: buildSuccessResponse_fields withDegradedContext_fields)

theorem degraded_reports_latest_failure_witness:
  "r_status (queryTrust two_failures client_defaults ScoreQuery (Some ''7'') no_options)
     = STATUS_DEGRADED
   \<and> r_source (queryTrust two_failures client_defaults ScoreQuery (Some ''7'') no_options)
     = TRUSTSCORE_CONTRACT
   \<and> r_fallback (queryTrust two_failures client_defaults ScoreQuery (Some ''7'') no_options)
     = Some (classify API_DEMO (http_error 500 ''upstream exploded''))"
proof -
  obtain result where
    ok: "attempt two_failures client_defaults ScoreQuery (decimal 7) TRUSTSCORE_CONTRACT
      = Inr result"
    using two_failures_contract two_failures_attempts(3) decimal_7 by auto
  have seq: "resolveSequence
      (case opt_mode no_options of Some m \<Rightarrow> m | None \<Rightarrow> defaultMode client_defaults)
      client_defaults no_options = [API_PAID, API_DEMO] @ TRUSTSCORE_CONTRACT # []"
    using default_sequence by simp
  have nonempty: "[API_PAID, API_DEMO] \<noteq> []"
    by simp
  have failed: "\<forall>s \<in> set [API_PAID, API_DEMO].
      \<exists>e. attempt two_failures client_defaults ScoreQuery (decimal 7) s = Inl e"
    using two_failures_attempts(1,2) decimal_7 by simp
  have err: "attempt two_failures client_defaults ScoreQuery (decimal 7)
      (last [API_PAID, API_DEMO]) = Inl (http_error 500 ''upstream exploded'')"
    using two_failures_attempts(2) decimal_7 by simp
  show ?thesis
    using degraded_reports_latest_failure [OF parse_7 seq nonempty failed err ok] by simp
qed

section \<open>Properties of the transient-error classifier\<close>

lemma isRpcError_chain: "isRpcError e \<longleftrightarrow> list_ex has_retry_mark (error_chain e)"
proof (induction e rule: isRpcError.induct)
  case (1 nm code msg shortMsg statusCode inner cause)
  have here: "has_retry_mark (JsError nm code msg shortMsg statusCode inner cause) \<longleftrightarrow>
      (case code of NumCode c \<Rightarrow> c = - 32000 \<or> c = - 32005 \<or> c = - 32603 | _ \<Rightarrow> False)
      \<or> (case code of StrCode s \<Rightarrow> s \<in> set knownCodes | _ \<Rightarrow> False)
      \<or> list_ex (\<lambda>token. str_includes (toLowerCase (msg @ '' '' @ shortMsg)) token) retryHints"
    by (cases code) (auto simp: has_retry_mark_def)
  show ?case
    using 1 here by (auto split: option.splits)
qed

text \<open>
  C9, as stated, fails: \<open>isRpcError\<close> does not stop one level down. An error without a mark
  whose cause has no mark either, but whose cause's cause has the code -32000, is
  transient for \<open>isRpcError\<close> and not for the classifier as stated.
\<close>

theorem transient_counterexample:
  "isRpcError nested_cause_error \<and> \<not> claimed_isRpcError nested_cause_error"
  by code_simp

text \<open>
  C9, amended. \<open>isRpcError\<close> returns true exactly when some error on the chain of nested
  errors (the error itself, then at each step the nested \<open>error\<close> when there is one and
  the \<open>cause\<close> otherwise, to any depth) has a numeric code in \<open>{-32000, -32005, -32603}\<close>,
  or a string code among \<open>NETWORK_ERROR\<close>, \<open>SERVER_ERROR\<close>, \<open>TIMEOUT\<close>, \<open>ECONNRESET\<close>,
  \<open>ETIMEDOUT\<close>, \<open>ENOTFOUND\<close>, or a text \<open>message + " " + shortMessage\<close> that contains,
  case-insensitively, one of the nine retry hints.
\<close>

theorem transient_along_chain:
  "isRpcError e \<longleftrightarrow> (\<exists>x \<in> set (error_chain e). has_retry_mark x)"
  using isRpcError_chain [of e] by (simp add: list_ex_iff)

section \<open>Properties of the checkpoint store\<close>

lemma remdups_skip_later:
  "x \<in> set zs \<Longrightarrow> remdups (ys @ x # zs) = remdups (ys @ zs)"
  by (induction ys) auto

lemma collect_pending_remdups:
  "distinct pending \<Longrightarrow>
   collect_pending ids (set pending) pending
     = rev (remdups (rev (pending @ List.map_filter normalizeAgentIdString ids)))"
proof (induction ids arbitrary: pending)
  case Nil
  then show ?case
    by (simp add: List.map_filter_simps distinct_remdups_id)
next
  case (Cons v ids)
  show ?case
  proof (cases "normalizeAgentIdString v")
    case None
    then show ?thesis
      using Cons by (simp add: List.map_filter_simps)
  next
    case (Some n)
    show ?thesis
    proof (cases "n \<in> set pending")
      case True
      have "remdups (rev (List.map_filter normalizeAgentIdString ids) @ n # rev pending)
          = remdups (rev (List.map_filter normalizeAgentIdString ids) @ rev pending)"
        using True by (intro remdups_skip_later) simp
      then show ?thesis
        using Cons Some True by (simp add: List.map_filter_simps)
    next
      case False
      have d: "distinct (pending @ [n])"
        using Cons.prems False by simp
      have "collect_pending ids (set (pending @ [n])) (pending @ [n])
          = rev (remdups (rev ((pending @ [n]) @ List.map_filter normalizeAgentIdString ids)))"
        using d by (rule Cons.IH)
      then show ?thesis
        using Some False by (simp add: List.map_filter_simps)
    qed
  qed
qed

lemma normalizeCheckpoint_pending:
  "pendingAgentIds (normalizeCheckpoint raw)
     = rev (remdups (rev (List.map_filter normalizeAgentIdString (raw_pendingAgentIds raw))))"
  using collect_pending_remdups [of "[]" "raw_pendingAgentIds raw"]
  by (simp add: normalizeCheckpoint_def)

lemma normalizeCheckpoint_distinct: "distinct (pendingAgentIds (normalizeCheckpoint raw))"
  by (simp add: normalizeCheckpoint_pending)

lemma map_filter_normalized:
  "List.map_filter normalizeAgentIdString (map (\<lambda>n. BigIntOf (int n)) ns) = ns"
  by (induction ns) (simp_all add: List.map_filter_simps normalizeAgentIdString_def)

lemma normalize_queued:
  "distinct ns \<Longrightarrow>
   normalizeCheckpoint \<lparr> raw_lastProcessedBlock = Some (of_nat b),
       raw_pendingAgentIds = map (\<lambda>n. BigIntOf (int n)) ns \<rparr>
     = \<lparr> lastProcessedBlock = Some b, pendingAgentIds = ns \<rparr>"
proof -
  assume d: "distinct ns"
  have "rev (remdups (rev ns)) = ns"
    using d by (simp add: distinct_remdups_id)
  then have "pendingAgentIds (normalizeCheckpoint \<lparr> raw_lastProcessedBlock = Some (of_nat b),
       raw_pendingAgentIds = map (\<lambda>n. BigIntOf (int n)) ns \<rparr>) = ns"
    by (simp add: normalizeCheckpoint_pending map_filter_normalized)
  moreover have "lastProcessedBlock (normalizeCheckpoint \<lparr> raw_lastProcessedBlock = Some (of_nat b),
       raw_pendingAgentIds = map (\<lambda>n. BigIntOf (int n)) ns \<rparr>) = Some b"
    by (simp add: normalizeCheckpoint_def isInteger_def)
  ultimately show ?thesis
    by (cases "normalizeCheckpoint \<lparr> raw_lastProcessedBlock = Some (of_nat b),
       raw_pendingAgentIds = map (\<lambda>n. BigIntOf (int n)) ns \<rparr>") simp
qed

lemma normalizeCheckpoint_last:
  "lastProcessedBlock (normalizeCheckpoint raw)
     = (case raw_lastProcessedBlock raw of
          Some b \<Rightarrow> if isInteger b \<and> 0 \<le> b then Some (nat \<lfloor>b\<rfloor>) else None
        | None \<Rightarrow> None)"
  by (simp add: normalizeCheckpoint_def)

lemma normalizeCheckpoint_idem:
  "normalizeCheckpoint (as_json (normalizeCheckpoint raw)) = normalizeCheckpoint raw"
proof -
  let ?c = "normalizeCheckpoint raw"
  have "pendingAgentIds (normalizeCheckpoint (as_json ?c))
      = rev (remdups (rev (pendingAgentIds ?c)))"
    unfolding normalizeCheckpoint_pending [of "as_json ?c"]
    by (simp add: as_json_def map_filter_normalized)
  then have p: "pendingAgentIds (normalizeCheckpoint (as_json ?c)) = pendingAgentIds ?c"
    using normalizeCheckpoint_distinct [of raw] by (simp add: distinct_remdups_id)
  have l: "lastProcessedBlock (normalizeCheckpoint (as_json ?c)) = lastProcessedBlock ?c"
    unfolding normalizeCheckpoint_last [of "as_json ?c"]
    by (cases "lastProcessedBlock ?c") (simp_all add: as_json_def isInteger_def)
  show ?thesis
    using p l by simp
qed

lemma saveCheckpoint_no_faults:
  "saveCheckpoint no_faults fs path c
     = (Inr (), fs(path @ ''.tmp'' := Inl ENOENT, path := Inr (Holds (as_json (normalizeCheckpoint c)))))"
  by (auto simp: saveCheckpoint_def no_faults_def Let_def fun_upd_twist)

lemma saveCheckpoint_failed:
  "saveCheckpoint disk fs path c = (Inl e, fs') \<Longrightarrow> fs' path = fs path"
  by (auto simp: saveCheckpoint_def Let_def split: option.splits)

lemma saveCheckpoint_done:
  "saveCheckpoint disk fs path c = (Inr u, fs') \<Longrightarrow>
     loadCheckpoint fs' path = Inr (normalizeCheckpoint c)"
  by (auto simp: saveCheckpoint_def Let_def loadCheckpoint_def normalizeCheckpoint_idem
        split: option.splits)

text \<open>
  C8. Saving a checkpoint value \<open>c\<close> and loading it again yields \<open>normalizeCheckpoint c\<close>
  (whenever the save goes through, and it does when no file operation fails). The
  normalised checkpoint keeps \<open>lastProcessedBlock\<close> only when it is a non-negative
  integer, and its \<open>pendingAgentIds\<close> are the entries that are non-negative integers, with
  every entry after its first occurrence dropped and the order kept. Loading when the file
  is absent yields the checkpoint with no block and no pending identifiers.
\<close>

theorem checkpoint_round_trip:
  "(\<forall>disk fs path fs'.
      saveCheckpoint disk fs path c = (Inr (), fs') \<longrightarrow>
      loadCheckpoint fs' path = Inr (normalizeCheckpoint c))
   \<and> (\<forall>fs path. fst (saveCheckpoint no_faults fs path c) = Inr ())
   \<and> lastProcessedBlock (normalizeCheckpoint c)
      = (case raw_lastProcessedBlock c of
           Some b \<Rightarrow> if isInteger b \<and> 0 \<le> b then Some (nat \<lfloor>b\<rfloor>) else None
         | None \<Rightarrow> None)
   \<and> pendingAgentIds (normalizeCheckpoint c)
      = rev (remdups (rev (List.map_filter normalizeAgentIdString (raw_pendingAgentIds c))))
   \<and> (\<forall>v. normalizeAgentIdString v = None \<longleftrightarrow> v = NotBigInt \<or> (\<exists>i < 0. v = BigIntOf i))
   \<and> (\<forall>v n. normalizeAgentIdString v = Some n \<longleftrightarrow> v = BigIntOf (int n))
   \<and> (\<forall>fs path. fs path = Inl ENOENT \<longrightarrow>
         loadCheckpoint fs path = Inr \<lparr> lastProcessedBlock = None, pendingAgentIds = [] \<rparr>)"
proof -
  have none: "normalizeAgentIdString v = None \<longleftrightarrow> v = NotBigInt \<or> (\<exists>i < 0. v = BigIntOf i)" for v
    by (cases v) (auto simp: normalizeAgentIdString_def)
  have some: "normalizeAgentIdString v = Some n \<longleftrightarrow> v = BigIntOf (int n)" for v n
    by (cases v) (auto simp: normalizeAgentIdString_def)
  have absent: "loadCheckpoint fs path = Inr \<lparr> lastProcessedBlock = None, pendingAgentIds = [] \<rparr>"
    if "fs path = Inl ENOENT" for fs path
    using that by (simp add: loadCheckpoint_def ENOENT_def)
  have saved: "loadCheckpoint fs' path = Inr (normalizeCheckpoint c)"
    if "saveCheckpoint disk fs path c = (Inr (), fs')" for disk fs path fs'
    using that by (rule saveCheckpoint_done)
  have succeeds: "fst (saveCheckpoint no_faults fs path c) = Inr ()" for fs path
    by (simp add: saveCheckpoint_no_faults)
  have g1: "\<forall>disk fs path fs'.
      saveCheckpoint disk fs path c = (Inr (), fs') \<longrightarrow>
      loadCheckpoint fs' path = Inr (normalizeCheckpoint c)"
    using saved by simp
  have g2: "\<forall>fs path. fst (saveCheckpoint no_faults fs path c) = Inr ()"
    using succeeds by simp
  have g5: "\<forall>v. normalizeAgentIdString v = None \<longleftrightarrow> v = NotBigInt \<or> (\<exists>i < 0. v = BigIntOf i)"
    using none by simp
  have g6: "\<forall>v n. normalizeAgentIdString v = Some n \<longleftrightarrow> v = BigIntOf (int n)"
    using some by simp
  have g7: "\<forall>fs path. fs path = Inl ENOENT \<longrightarrow>
         loadCheckpoint fs path = Inr \<lparr> lastProcessedBlock = None, pendingAgentIds = [] \<rparr>"
    using absent by simp
  show ?thesis
    by (intro conjI g1 g2 g5 g6 g7 normalizeCheckpoint_last normalizeCheckpoint_pending)
qed

theorem checkpoint_round_trip_witness:
  "saveCheckpoint no_faults no_files ''checkpoint.json'' untidy_checkpoint
     = (Inr (), snd (saveCheckpoint no_faults no_files ''checkpoint.json'' untidy_checkpoint))
   \<and> loadCheckpoint (snd (saveCheckpoint no_faults no_files ''checkpoint.json'' untidy_checkpoint))
       ''checkpoint.json''
     = Inr \<lparr> lastProcessedBlock = Some 12, pendingAgentIds = [5, 3] \<rparr>
   \<and> no_files ''checkpoint.json'' = Inl ENOENT
   \<and> loadCheckpoint no_files ''checkpoint.json''
     = Inr \<lparr> lastProcessedBlock = None, pendingAgentIds = [] \<rparr>"
proof -
  let ?fs = "snd (saveCheckpoint no_faults no_files ''checkpoint.json'' untidy_checkpoint)"
  have saved: "saveCheckpoint no_faults no_files ''checkpoint.json'' untidy_checkpoint
     = (Inr (), ?fs)"
    using checkpoint_round_trip [of untidy_checkpoint, THEN conjunct2, THEN conjunct1]
    by (simp add: prod_eq_iff)
  have n: "normalizeCheckpoint untidy_checkpoint
      = \<lparr> lastProcessedBlock = Some 12, pendingAgentIds = [5, 3] \<rparr>"
    by (simp add: normalizeCheckpoint_def untidy_checkpoint_def normalizeAgentIdString_def
          isInteger_def)
  have absent: "no_files ''checkpoint.json'' = Inl ENOENT"
    by (simp add: no_files_def)
  have "loadCheckpoint ?fs ''checkpoint.json'' = Inr (normalizeCheckpoint untidy_checkpoint)"
    using checkpoint_round_trip [of untidy_checkpoint, THEN conjunct1, rule_format, OF saved] .
  moreover have "loadCheckpoint no_files ''checkpoint.json''
     = Inr \<lparr> lastProcessedBlock = None, pendingAgentIds = [] \<rparr>"
    using checkpoint_round_trip [of untidy_checkpoint, THEN conjunct2, THEN conjunct2,
      THEN conjunct2, THEN conjunct2, THEN conjunct2, THEN conjunct2, rule_format,
      of no_files "''checkpoint.json''", OF absent] .
  ultimately show ?thesis
    using saved n absent by simp
qed

section \<open>Properties of the indexer cycle\<close>

subsection \<open>The stages of a cycle\<close>

lemma and_then_Inr:
  "and_then m f = Some (Inr r) \<Longrightarrow> \<exists>v. m = Some (Inr v) \<and> f v = Some (Inr r)"
  by (auto simp: and_then_def split: option.splits sum.splits)

lemma and_then_simps:
  "and_then (Some (Inr v)) f = f v"
  "and_then (Some (Inl e)) f = Some (Inl e)"
  "and_then None f = None"
  by (simp_all add: and_then_def)

lemma score_agents_ids:
  "score_agents fuel ch config latest nowMs agents cache b = Some (Inr b') \<Longrightarrow>
     agentIds b' = agentIds b @ agents"
proof (induction agents arbitrary: cache b)
  case Nil
  then show ?case by simp
next
  case (Cons a agents)
  from Cons.prems have "\<exists>cache' sc tot pos.
    score_agents fuel ch config latest nowMs agents cache'
       \<lparr> agentIds = agentIds b @ [a], scores = scores b @ [sc],
         totals = totals b @ [tot], positives = positives b @ [pos] \<rparr> = Some (Inr b')"
    by (auto dest!: and_then_Inr split: sum.splits) blast
  then obtain cache' sc tot pos where
    "score_agents fuel ch config latest nowMs agents cache'
       \<lparr> agentIds = agentIds b @ [a], scores = scores b @ [sc],
         totals = totals b @ [tot], positives = positives b @ [pos] \<rparr> = Some (Inr b')"
    by blast
  from Cons.IH [OF this] show ?case by simp
qed

lemma set_foldl_set_add: "set (foldl set_add ms xs) = set ms \<union> set xs"
  by (induction xs arbitrary: ms) (auto simp: set_add_def)

lemma distinct_foldl_set_add: "distinct ms \<Longrightarrow> distinct (foldl set_add ms xs)"
  by (induction xs arbitrary: ms) (auto simp: set_add_def)

lemma foldl_set_add_distinct: "distinct xs \<Longrightarrow> set ms \<inter> set xs = {} \<Longrightarrow> foldl set_add ms xs = ms @ xs"
  by (induction xs arbitrary: ms) (auto simp: set_add_def)

lemma dirty_step_set:
  "set (foldl (\<lambda>dirty lg. case normalizeAgentIdString (arg_agentId lg) of
                 Some normalized \<Rightarrow> set_add dirty normalized | None \<Rightarrow> dirty) ms logs)
     = set ms \<union> {n. \<exists>lg \<in> set logs. normalizeAgentIdString (arg_agentId lg) = Some n}"
  by (induction logs arbitrary: ms) (auto simp: set_add_def split: option.splits)

lemma dirty_step_distinct:
  "distinct ms \<Longrightarrow>
   distinct (foldl (\<lambda>dirty lg. case normalizeAgentIdString (arg_agentId lg) of
                 Some normalized \<Rightarrow> set_add dirty normalized | None \<Rightarrow> dirty) ms logs)"
  by (induction logs arbitrary: ms) (auto simp: set_add_def split: option.splits)

lemma set_dirtyAgentIds:
  "set (dirtyAgentIds cp logs)
     = set (pendingAgentIds cp)
       \<union> {n. \<exists>lg \<in> set logs. normalizeAgentIdString (arg_agentId lg) = Some n}"
  by (simp add: dirtyAgentIds_def dirty_step_set set_foldl_set_add)

lemma distinct_dirtyAgentIds: "distinct (dirtyAgentIds cp logs)"
  by (simp add: dirtyAgentIds_def dirty_step_distinct distinct_foldl_set_add)

lemma sortedDirtyAgents_set:
  "sortedDirtyAgents cp logs = sorted_list_of_set (set (dirtyAgentIds cp logs))"
  using distinct_dirtyAgentIds [of cp logs]
  by (simp add: sortedDirtyAgents_def sorted_list_of_set_sort_remdups distinct_remdups_id)

lemma distinct_sortedDirtyAgents: "distinct (sortedDirtyAgents cp logs)"
  by (simp add: sortedDirtyAgents_set)

lemma sorted_sortedDirtyAgents: "sorted (sortedDirtyAgents cp logs)"
  by (simp add: sortedDirtyAgents_def)

lemma dirty_of_pending:
  "distinct ns \<Longrightarrow> dirtyAgentIds \<lparr> lastProcessedBlock = b, pendingAgentIds = ns \<rparr> [] = ns"
  using foldl_set_add_distinct [of ns "[]"] by (simp add: dirtyAgentIds_def)

lemma scan_and_update_report:
  assumes "scan_and_update fuel config nowMs ch cp = Some (Inr report)"
  shows "\<exists>latest logs.
      observe_chain fuel config ch cp = Some (Inr (latest, logs))
      \<and> latestBlock report = latest
      \<and> newEventCount report = length logs
      \<and> processedAgentIds report = take (run_maxBatchSize config) (sortedDirtyAgents cp logs)
      \<and> queuedAgentIds report = drop (run_maxBatchSize config) (sortedDirtyAgents cp logs)
      \<and> processedAgentCount report = length (processedAgentIds report)
      \<and> queuedAgentCount report = length (queuedAgentIds report)
      \<and> dirtyAgentCount report = length (sortedDirtyAgents cp logs)"
proof -
  obtain latest logs where obs: "observe_chain fuel config ch cp = Some (Inr (latest, logs))"
    and rest: "(let sorted = sortedDirtyAgents cp logs;
              agentsToProcess = take (run_maxBatchSize config) sorted;
              queued = drop (run_maxBatchSize config) sorted
          in and_then
               (score_agents fuel ch config latest nowMs agentsToProcess Map.empty
                  \<lparr> agentIds = [], scores = [], totals = [], positives = [] \<rparr>)
               (\<lambda>b.
                  and_then (submit_batch fuel ch b)
                    (\<lambda>hashes.
                       Some (Inr
                         \<lparr> fromBlock = first_block config cp, latestBlock = latest,
                           newEventCount = length logs,
                           dirtyAgentCount = length sorted,
                           processedAgentCount = length (agentIds b),
                           queuedAgentCount = length queued,
                           processedAgentIds = agentIds b,
                           queuedAgentIds = queued,
                           txHashes = hashes \<rparr>)))) = Some (Inr report)"
    using assms unfolding scan_and_update_def by (auto dest!: and_then_Inr)
  obtain b hashes where
    b: "score_agents fuel ch config latest nowMs
          (take (run_maxBatchSize config) (sortedDirtyAgents cp logs)) Map.empty
          \<lparr> agentIds = [], scores = [], totals = [], positives = [] \<rparr> = Some (Inr b)"
    and report: "report = \<lparr> fromBlock = first_block config cp, latestBlock = latest,
                           newEventCount = length logs,
                           dirtyAgentCount = length (sortedDirtyAgents cp logs),
                           processedAgentCount = length (agentIds b),
                           queuedAgentCount = length (drop (run_maxBatchSize config) (sortedDirtyAgents cp logs)),
                           processedAgentIds = agentIds b,
                           queuedAgentIds = drop (run_maxBatchSize config) (sortedDirtyAgents cp logs),
                           txHashes = hashes \<rparr>"
    using rest unfolding Let_def by (auto dest!: and_then_Inr)
  have "agentIds b = take (run_maxBatchSize config) (sortedDirtyAgents cp logs)"
    using score_agents_ids [OF b] by simp
  then show ?thesis
    using obs report by simp
qed

lemma resolved_path:
  "resolveRuntimeConfig settings = Inr config \<Longrightarrow> run_checkpointPath config = checkpoint_file settings"
  by (auto simp: resolveRuntimeConfig_def split: if_splits)

lemma cycle_success:
  assumes "runIndexerCycle fuel settings nowMs ch disk fs = (Some (Inr report), fs')"
  shows "\<exists>config cp.
      resolveRuntimeConfig settings = Inr config
      \<and> loadCheckpoint fs (run_checkpointPath config) = Inr cp
      \<and> scan_and_update fuel config nowMs ch cp = Some (Inr report)
      \<and> (\<exists>u. saveCheckpoint disk fs (run_checkpointPath config)
            \<lparr> raw_lastProcessedBlock = Some (of_nat (latestBlock report)),
              raw_pendingAgentIds = map (\<lambda>n. BigIntOf (int n)) (queuedAgentIds report) \<rparr>
          = (Inr u, fs'))"
  using assms unfolding runIndexerCycle_def
  by (auto split: sum.splits option.splits prod.splits)

lemma cycle_raises:
  assumes "runIndexerCycle fuel settings nowMs ch disk fs = (Some (Inl e), fs')"
    and "resolveRuntimeConfig settings = Inr config"
  shows "fs' (run_checkpointPath config) = fs (run_checkpointPath config)"
  using assms unfolding runIndexerCycle_def
  by (auto split: sum.splits option.splits prod.splits dest: saveCheckpoint_failed)

lemma cycle_unresolved:
  assumes "runIndexerCycle fuel settings nowMs ch disk fs = (outcome, fs')"
    and "resolveRuntimeConfig settings = Inl e"
  shows "fs' = fs \<and> outcome = Some (Inl e)"
  using assms unfolding runIndexerCycle_def by auto

lemma cycle_retrying:
  assumes "runIndexerCycle fuel settings nowMs ch disk fs = (None, fs')"
  shows "fs' = fs"
  using assms unfolding runIndexerCycle_def
  by (auto split: sum.splits option.splits prod.splits)

subsection \<open>The scenario inputs\<close>

lemma block_number_dbl: "is_double x \<Longrightarrow> block_number (dbl x) = nat \<lfloor>x\<rfloor>"
  by (simp add: block_number_def dbl_exact val_the_double)

lemma BigInt_dbl:
  "is_double x \<Longrightarrow> of_int \<lfloor>x\<rfloor> = x \<Longrightarrow> BigInt (dbl x) = Inr \<lfloor>x\<rfloor>"
  by (simp add: BigInt_def dbl_exact val_the_double)

lemma resolve_test_settings: "resolveRuntimeConfig test_settings = Inr test_config"
  by (simp add: resolveRuntimeConfig_def test_settings_def test_config_def normalize_default
        checkpoint_file_def toNonNegativeInt_def toPositiveInt_def DEFAULT_MAX_BATCH_SIZE_def
        block_number_dbl js_eval)

lemma load_no_files: "loadCheckpoint no_files ''checkpoint.json'' = Inr \<lparr> lastProcessedBlock = None, pendingAgentIds = [] \<rparr>"
  by (simp add: loadCheckpoint_def no_files_def ENOENT_def)

lemma load_one_pending:
  "loadCheckpoint one_pending ''checkpoint.json''
     = Inr \<lparr> lastProcessedBlock = Some 6, pendingAgentIds = [11] \<rparr>"
  by (simp add: loadCheckpoint_def one_pending_def normalizeCheckpoint_def isInteger_def
        normalizeAgentIdString_def)

lemma keys_differ: "feedbackDedupKey (feedback_event 10 100 5) \<noteq> feedbackDedupKey (feedback_event 11 (- 100) 6)"
  by (simp add: feedbackDedupKey_def feedback_event_def normalizeAgentIdString_def decimal.simps)

lemma dedupe_two: "dedupeLogs registry_logs = registry_logs"
proof -
  have d: "dedupe_loop registry_logs {} [] = registry_logs"
    by (simp add: registry_logs_def keys_differ keys_differ [symmetric])
  have s: "sortLogs registry_logs = registry_logs"
    by (simp add: sortLogs_def registry_logs_def feedback_event_def)
  show ?thesis
    by (simp add: dedupeLogs_def d s)
qed

lemma first_observe: "observe_chain (Suc 0) test_config test_chain \<lparr> lastProcessedBlock = None, pendingAgentIds = [] \<rparr>
    = Some (Inr (6, registry_logs))"
proof -
  have q1: "rpcCall (Suc 0) (queryFilter test_chain FeedbackPosted None (Suc 0) 6) = Some (Inr [])"
    by (simp add: rpcCall_def test_chain_def)
  have q2: "rpcCall (Suc 0) (queryFilter test_chain NewFeedback None (Suc 0) 6) = Some (Inr registry_logs)"
    by (simp add: rpcCall_def test_chain_def registry_logs_def feedback_event_def)
  have b: "rpcCall (Suc 0) (getBlockNumber test_chain) = Some (Inr 6)"
    by (simp add: rpcCall_def test_chain_def)
  have fb: "first_block test_config \<lparr> lastProcessedBlock = None, pendingAgentIds = [] \<rparr> = 1"
    by (simp add: first_block_def test_config_def)
  show ?thesis
    by (simp add: observe_chain_def fb b q1 q2 and_then_simps queryFeedbackLogs_def dedupe_two)
qed

lemma quiet_observe:
  assumes "getBlockNumber ch = getBlockNumber test_chain"
  shows "observe_chain (Suc 0) test_config ch \<lparr> lastProcessedBlock = Some 6, pendingAgentIds = [11] \<rparr>
    = Some (Inr (6, []))"
proof -
  have b: "rpcCall (Suc 0) (getBlockNumber ch) = Some (Inr 6)"
    by (simp add: rpcCall_def assms test_chain_def)
  have fb: "first_block test_config \<lparr> lastProcessedBlock = Some 6, pendingAgentIds = [11] \<rparr> = 7"
    by (simp add: first_block_def test_config_def)
  show ?thesis
    by (simp add: observe_chain_def fb b and_then_simps)
qed

lemma sorted_two: "sortedDirtyAgents \<lparr> lastProcessedBlock = None, pendingAgentIds = [] \<rparr> registry_logs = [10, 11]"
  by (simp add: sortedDirtyAgents_def dirtyAgentIds_def registry_logs_def feedback_event_def
        normalizeAgentIdString_def set_add_def)

lemma sorted_one: "sortedDirtyAgents \<lparr> lastProcessedBlock = Some 6, pendingAgentIds = [11] \<rparr> [] = [11]"
  by (simp add: sortedDirtyAgents_def dirtyAgentIds_def set_add_def)

lemma agent10_logs:
  "queryFeedbackLogsForAgent (Suc 0) test_chain 10 0 6 = Some (Inr [feedback_event 10 100 5])"
proof -
  have q1: "rpcCall (Suc 0) (queryFilter test_chain FeedbackPosted (Some 10) 0 6) = Some (Inr [])"
    by (simp add: rpcCall_def test_chain_def)
  have q2: "rpcCall (Suc 0) (queryFilter test_chain NewFeedback (Some 10) 0 6)
      = Some (Inr [feedback_event 10 100 5])"
    by (simp add: rpcCall_def test_chain_def registry_logs_def feedback_event_def)
  have d: "dedupeLogs [feedback_event 10 100 5] = [feedback_event 10 100 5]"
    by (simp add: dedupeLogs_def sortLogs_def)
  show ?thesis
    by (simp add: queryFeedbackLogsForAgent_def q1 q2 and_then_simps d)
qed

lemma agent10_entries:
  "collectFeedbackForAgent (Suc 0) test_chain 10 0 6 Map.empty
     = Some (Inr ([entry True (dbl 1770768005000)], [5 \<mapsto> dbl 1770768005000]))"
proof -
  have g: "rpcCall (Suc 0) (getBlock test_chain 5) = Some (Inr (Some 1770768005))"
    by (simp add: rpcCall_def test_chain_def)
  show ?thesis
    by (simp add: collectFeedbackForAgent_def agent10_logs and_then_simps g feedback_event_def
          js_eval)
qed

lemma agent10_score:
  "scoreFeedbackDetailed [entry True (dbl 1770768005000)]
     (config_as_input DEFAULT_SCORING_CONFIG) (dbl 1770854400000)
     = Inr \<lparr> score = dbl 1000, baseScore = dbl 1000, confidenceAdjustedScore = dbl 1000,
             flagged = False, totalFeedback = dbl 1, positiveFeedback = dbl 1,
             recentNegativeRateBps = dbl 0, recentFeedbackCount = dbl 1,
             confidenceApplied = False \<rparr>"
proof -
  have t: "count_feedback DEFAULT_SCORING_CONFIG (dbl 1768262400000) (dbl 1770249600000)
      [entry True (dbl 1770768005000)] empty_tally
    = Inr \<lparr> weightedPositive = dbl 2, weightedTotal = dbl 2, totalCount = dbl 1,
        positiveCount = dbl 1, recentCount = dbl 1, recentNegativeCount = dbl 0 \<rparr>"
    by (simp del: count_feedback.simps(2)
          add: count_feedback_entry count_entry_def Let_def empty_tally_def
            DEFAULT_SCORING_CONFIG_def js_eval)
  have r: "score_tally DEFAULT_SCORING_CONFIG
      \<lparr> weightedPositive = dbl 2, weightedTotal = dbl 2, totalCount = dbl 1,
        positiveCount = dbl 1, recentCount = dbl 1, recentNegativeCount = dbl 0 \<rparr>
    = \<lparr> score = dbl 1000, baseScore = dbl 1000, confidenceAdjustedScore = dbl 1000,
        flagged = False, totalFeedback = dbl 1, positiveFeedback = dbl 1,
        recentNegativeRateBps = dbl 0, recentFeedbackCount = dbl 1,
        confidenceApplied = False \<rparr>"
    by (simp add: score_tally_def Let_def clamp_def DEFAULT_SCORING_CONFIG_def
          DEFAULT_MAX_SCORE_def js_eval roundings)
  show ?thesis
    using t r by (rule run_default)
qed

lemma agent11_entries:
  assumes "queryFilter ch = queryFilter test_chain" "getBlock ch = getBlock test_chain"
  shows "collectFeedbackForAgent (Suc 0) ch 11 0 6 Map.empty
     = Some (Inr ([entry False (dbl 1770768006000)], [6 \<mapsto> dbl 1770768006000]))"
proof -
  have q1: "rpcCall (Suc 0) (queryFilter ch FeedbackPosted (Some 11) 0 6) = Some (Inr [])"
    by (simp add: rpcCall_def assms test_chain_def)
  have q2: "rpcCall (Suc 0) (queryFilter ch NewFeedback (Some 11) 0 6)
      = Some (Inr [feedback_event 11 (- 100) 6])"
    by (simp add: rpcCall_def assms test_chain_def registry_logs_def feedback_event_def)
  have d: "dedupeLogs [feedback_event 11 (- 100) 6] = [feedback_event 11 (- 100) 6]"
    by (simp add: dedupeLogs_def sortLogs_def)
  have logs: "queryFeedbackLogsForAgent (Suc 0) ch 11 0 6 = Some (Inr [feedback_event 11 (- 100) 6])"
    by (simp add: queryFeedbackLogsForAgent_def q1 q2 and_then_simps d)
  have g: "rpcCall (Suc 0) (getBlock ch 6) = Some (Inr (Some 1770768006))"
    by (simp add: rpcCall_def assms test_chain_def)
  show ?thesis
    by (simp add: collectFeedbackForAgent_def logs and_then_simps g feedback_event_def
          js_eval)
qed

lemma agent11_score:
  "scoreFeedbackDetailed [entry False (dbl 1770768006000)]
     (config_as_input DEFAULT_SCORING_CONFIG) (dbl 1770854400000)
     = Inr \<lparr> score = dbl 0, baseScore = dbl 0, confidenceAdjustedScore = dbl 0,
             flagged = True, totalFeedback = dbl 1, positiveFeedback = dbl 0,
             recentNegativeRateBps = dbl 10000, recentFeedbackCount = dbl 1,
             confidenceApplied = False \<rparr>"
proof -
  have t: "count_feedback DEFAULT_SCORING_CONFIG (dbl 1768262400000) (dbl 1770249600000)
      [entry False (dbl 1770768006000)] empty_tally
    = Inr \<lparr> weightedPositive = dbl 0, weightedTotal = dbl 2, totalCount = dbl 1,
        positiveCount = dbl 0, recentCount = dbl 1, recentNegativeCount = dbl 1 \<rparr>"
    by (simp del: count_feedback.simps(2)
          add: count_feedback_entry count_entry_def Let_def empty_tally_def
            DEFAULT_SCORING_CONFIG_def js_eval)
  show ?thesis
    using t score_neg by (rule run_default)
qed

lemma BigInt_results:
  "BigInt (dbl 1000) = Inr 1000" "BigInt (dbl 1) = Inr 1" "BigInt (dbl 0) = Inr 0"
  by (simp_all add: BigInt_dbl)

lemma first_scan:
  "scan_and_update (Suc 0) test_config (dbl 1770854400000) test_chain
       \<lparr> lastProcessedBlock = None, pendingAgentIds = [] \<rparr>
     = Some (Inr \<lparr> fromBlock = 1, latestBlock = 6, newEventCount = 2, dirtyAgentCount = 2,
          processedAgentCount = 1, queuedAgentCount = 1, processedAgentIds = [10],
          queuedAgentIds = [11], txHashes = [''0xbatch''] \<rparr>)"
proof -
  have fb: "first_block test_config \<lparr> lastProcessedBlock = None, pendingAgentIds = [] \<rparr> = 1"
    by (simp add: first_block_def test_config_def)
  have cfg: "run_maxBatchSize test_config = 1" "run_startBlock test_config = 0"
    "run_scoringConfig test_config = DEFAULT_SCORING_CONFIG"
    by (simp_all add: test_config_def)
  have tx: "rpcCall (Suc 0) (batchUpdateScores test_chain [10] [1000] [1] [1])
      = Some (Inr ''0xbatch'')"
    by (simp add: rpcCall_def test_chain_def)
  have rc: "rpcCall (Suc 0) (wait_receipt test_chain ''0xbatch'') = Some (Inr ())"
    by (simp add: rpcCall_def test_chain_def)
  have n: "length registry_logs = 2"
    by (simp add: registry_logs_def)
  show ?thesis
    by (simp add: scan_and_update_def first_observe and_then_simps sorted_two cfg agent10_entries
          agent10_score BigInt_results submit_batch_def tx rc fb n)
qed

lemma second_scan:
  "scan_and_update (Suc 0) test_config (dbl 1770854400000) test_chain
       \<lparr> lastProcessedBlock = Some 6, pendingAgentIds = [11] \<rparr>
     = Some (Inr second_report)"
proof -
  have fb: "first_block test_config \<lparr> lastProcessedBlock = Some 6, pendingAgentIds = [11] \<rparr> = 7"
    by (simp add: first_block_def test_config_def)
  have cfg: "run_maxBatchSize test_config = 1" "run_startBlock test_config = 0"
    "run_scoringConfig test_config = DEFAULT_SCORING_CONFIG"
    by (simp_all add: test_config_def)
  have tx: "rpcCall (Suc 0) (batchUpdateScores test_chain [11] [0] [1] [0])
      = Some (Inr ''0xbatch'')"
    by (simp add: rpcCall_def test_chain_def)
  have rc: "rpcCall (Suc 0) (wait_receipt test_chain ''0xbatch'') = Some (Inr ())"
    by (simp add: rpcCall_def test_chain_def)
  show ?thesis
    by (simp add: scan_and_update_def quiet_observe and_then_simps sorted_one cfg
          agent11_entries agent11_score BigInt_results submit_batch_def tx rc fb
          second_report_def)
qed

lemma not_transient: "\<not> isRpcError (Error ''execution reverted'')"
  by code_simp

lemma reverted_scan:
  "scan_and_update (Suc 0) test_config (dbl 1770854400000) reverting_chain
       \<lparr> lastProcessedBlock = Some 6, pendingAgentIds = [11] \<rparr>
     = Some (Inl (Error ''execution reverted''))"
proof -
  have same: "getBlockNumber reverting_chain = getBlockNumber test_chain"
    "queryFilter reverting_chain = queryFilter test_chain"
    "getBlock reverting_chain = getBlock test_chain"
    by (simp_all add: reverting_chain_def)
  have cfg: "run_maxBatchSize test_config = 1" "run_startBlock test_config = 0"
    "run_scoringConfig test_config = DEFAULT_SCORING_CONFIG"
    by (simp_all add: test_config_def)
  have tx: "rpcCall (Suc 0) (batchUpdateScores reverting_chain [11] [0] [1] [0])
      = Some (Inl (Error ''execution reverted''))"
    by (simp add: rpcCall_def reverting_chain_def not_transient)
  show ?thesis
    by (simp add: scan_and_update_def quiet_observe [OF same(1)] and_then_simps sorted_one cfg
          agent11_entries [OF same(2,3)] agent11_score BigInt_results submit_batch_def tx)
qed

lemma first_cycle:
  "runIndexerCycle (Suc 0) test_settings (dbl 1770854400000) test_chain no_faults no_files
     = (Some (Inr first_report),
        snd (saveCheckpoint no_faults no_files ''checkpoint.json''
          \<lparr> raw_lastProcessedBlock = Some 6, raw_pendingAgentIds = [BigIntOf 11] \<rparr>))"
proof -
  have p: "run_checkpointPath test_config = ''checkpoint.json''"
    by (simp add: test_config_def)
  show ?thesis
    unfolding runIndexerCycle_def
    by (simp add: resolve_test_settings p load_no_files first_scan first_report_def [symmetric] saveCheckpoint_no_faults)
      (simp add: first_report_def)
qed

lemma second_cycle:
  assumes "loadCheckpoint fs ''checkpoint.json''
     = Inr \<lparr> lastProcessedBlock = Some 6, pendingAgentIds = [11] \<rparr>"
  shows "fst (runIndexerCycle (Suc 0) test_settings (dbl 1770854400000) test_chain no_faults fs)
     = Some (Inr second_report)"
proof -
  have p: "run_checkpointPath test_config = ''checkpoint.json''"
    by (simp add: test_config_def)
  show ?thesis
    unfolding runIndexerCycle_def
    by (simp add: resolve_test_settings p assms second_scan saveCheckpoint_no_faults)
qed

lemma reverted_cycle:
  "runIndexerCycle (Suc 0) test_settings (dbl 1770854400000) reverting_chain no_faults one_pending
     = (Some (Inl (Error ''execution reverted'')), one_pending)"
proof -
  have p: "run_checkpointPath test_config = ''checkpoint.json''"
    by (simp add: test_config_def)
  show ?thesis
    unfolding runIndexerCycle_def
    by (simp add: resolve_test_settings p load_one_pending reverted_scan)
qed

subsection \<open>Overflow\<close>

text \<open>
  C4. Take a cycle that completes, with the checkpoint \<open>cp\<close> it loaded and the logs it
  observed; its dirty set \<open>D\<close> is the pending identifiers of \<open>cp\<close> together with the agents
  of the logs, and \<open>N\<close> is the batch cap. The cycle processes the \<open>N\<close> smallest members of
  \<open>D\<close>, in ascending order, and the checkpoint it leaves holds the chain head and the other
  members of \<open>D\<close> as \<open>pendingAgentIds\<close>. So every member of \<open>D\<close> that was not processed
  is in the dirty set of the cycle that loads this checkpoint, whatever logs that cycle
  observes. With two dirty agents and a cap of one, the cycle processes one agent and
  queues one, and a following cycle that completes without new events processes the queued
  agent and leaves no pending identifier.
\<close>

theorem overflow_carries_over:
  assumes cyc: "runIndexerCycle fuel settings nowMs ch disk fs = (Some (Inr report), fs')"
    and cfg: "resolveRuntimeConfig settings = Inr config"
    and cp: "loadCheckpoint fs (run_checkpointPath config) = Inr cp"
    and obs: "observe_chain fuel config ch cp = Some (Inr (latest, logs))"
  shows "set (dirtyAgentIds cp logs)
        = set (pendingAgentIds cp)
          \<union> {n. \<exists>lg \<in> set logs. normalizeAgentIdString (arg_agentId lg) = Some n}
    \<and> processedAgentIds report
        = take (run_maxBatchSize config) (sorted_list_of_set (set (dirtyAgentIds cp logs)))
    \<and> queuedAgentIds report
        = drop (run_maxBatchSize config) (sorted_list_of_set (set (dirtyAgentIds cp logs)))
    \<and> loadCheckpoint fs' (run_checkpointPath config)
        = Inr \<lparr> lastProcessedBlock = Some latest, pendingAgentIds = queuedAgentIds report \<rparr>
    \<and> (\<forall>logs'. set (dirtyAgentIds cp logs) - set (processedAgentIds report)
          \<subseteq> set (dirtyAgentIds
                  \<lparr> lastProcessedBlock = Some latest, pendingAgentIds = queuedAgentIds report \<rparr>
                  logs'))
    \<and> (card (set (dirtyAgentIds cp logs)) = 2 \<and> run_maxBatchSize config = 1 \<longrightarrow>
         processedAgentCount report = 1 \<and> queuedAgentCount report = 1
         \<and> length (queuedAgentIds report) = 1
         \<and> (\<forall>fuel2 nowMs2 ch2 disk2 report2 fs2.
               runIndexerCycle fuel2 settings nowMs2 ch2 disk2 fs' = (Some (Inr report2), fs2)
               \<and> newEventCount report2 = 0 \<longrightarrow>
               processedAgentIds report2 = queuedAgentIds report
               \<and> processedAgentCount report2 = 1
               \<and> queuedAgentIds report2 = []
               \<and> loadCheckpoint fs2 (run_checkpointPath config)
                   = Inr \<lparr> lastProcessedBlock = Some (latestBlock report2),
                           pendingAgentIds = [] \<rparr>))"
proof -
  let ?N = "run_maxBatchSize config"
  let ?path = "run_checkpointPath config"
  let ?s = "sortedDirtyAgents cp logs"
  obtain u where scan: "scan_and_update fuel config nowMs ch cp = Some (Inr report)"
    and save: "saveCheckpoint disk fs ?path
            \<lparr> raw_lastProcessedBlock = Some (of_nat (latestBlock report)),
              raw_pendingAgentIds = map (\<lambda>n. BigIntOf (int n)) (queuedAgentIds report) \<rparr>
          = (Inr u, fs')"
    using cycle_success [OF cyc] cfg cp by auto
  have rep: "latestBlock report = latest" "processedAgentIds report = take ?N ?s"
    "queuedAgentIds report = drop ?N ?s"
    "processedAgentCount report = length (processedAgentIds report)"
    "queuedAgentCount report = length (queuedAgentIds report)"
    using scan_and_update_report [OF scan] obs by auto
  have s: "?s = sorted_list_of_set (set (dirtyAgentIds cp logs))"
    by (rule sortedDirtyAgents_set)
  have ds: "distinct ?s" and ss: "sorted ?s"
    by (simp_all add: distinct_sortedDirtyAgents sorted_sortedDirtyAgents)
  have set_s: "set ?s = set (dirtyAgentIds cp logs)"
    by (simp add: sortedDirtyAgents_def)
  have dq: "distinct (queuedAgentIds report)"
    unfolding rep using ds by simp
  have load: "loadCheckpoint fs' ?path
      = Inr \<lparr> lastProcessedBlock = Some latest, pendingAgentIds = queuedAgentIds report \<rparr>"
    using saveCheckpoint_done [OF save] normalize_queued [OF dq, of "latestBlock report"]
    by (simp add: rep(1))
  have next_dirty: "set (dirtyAgentIds cp logs) - set (processedAgentIds report)
          \<subseteq> set (dirtyAgentIds
                  \<lparr> lastProcessedBlock = Some latest, pendingAgentIds = queuedAgentIds report \<rparr>
                  logs')" for logs'
  proof -
    have "set ?s = set (take ?N ?s) \<union> set (drop ?N ?s)"
      using set_append [of "take ?N ?s" "drop ?N ?s"] by simp
    then have "set (dirtyAgentIds cp logs) - set (processedAgentIds report)
        \<subseteq> set (queuedAgentIds report)"
      unfolding rep set_s [symmetric] by auto
    then show ?thesis
      by (auto simp: set_dirtyAgentIds)
  qed
  have two: "processedAgentCount report = 1 \<and> queuedAgentCount report = 1
         \<and> length (queuedAgentIds report) = 1
         \<and> (\<forall>fuel2 nowMs2 ch2 disk2 report2 fs2.
               runIndexerCycle fuel2 settings nowMs2 ch2 disk2 fs' = (Some (Inr report2), fs2)
               \<and> newEventCount report2 = 0 \<longrightarrow>
               processedAgentIds report2 = queuedAgentIds report
               \<and> processedAgentCount report2 = 1
               \<and> queuedAgentIds report2 = []
               \<and> loadCheckpoint fs2 ?path
                   = Inr \<lparr> lastProcessedBlock = Some (latestBlock report2),
                           pendingAgentIds = [] \<rparr>)"
    if card2: "card (set (dirtyAgentIds cp logs)) = 2" and one: "?N = 1"
  proof -
    have len: "length ?s = 2"
      using card2 distinct_card [OF ds] set_s by simp
    have lq: "length (queuedAgentIds report) = 1" and lp: "length (processedAgentIds report) = 1"
      unfolding rep one using len by simp_all
    have sq: "sorted (queuedAgentIds report)"
      unfolding rep using ss by (rule sorted_wrt_drop)
    have second: "processedAgentIds report2 = queuedAgentIds report
               \<and> processedAgentCount report2 = 1
               \<and> queuedAgentIds report2 = []
               \<and> loadCheckpoint fs2 ?path
                   = Inr \<lparr> lastProcessedBlock = Some (latestBlock report2),
                           pendingAgentIds = [] \<rparr>"
      if cyc2: "runIndexerCycle fuel2 settings nowMs2 ch2 disk2 fs' = (Some (Inr report2), fs2)"
        and quiet: "newEventCount report2 = 0"
      for fuel2 nowMs2 ch2 disk2 report2 fs2
    proof -
      let ?cp2 = "\<lparr> lastProcessedBlock = Some latest, pendingAgentIds = queuedAgentIds report \<rparr>"
      obtain u2 where scan2: "scan_and_update fuel2 config nowMs2 ch2 ?cp2 = Some (Inr report2)"
        and save2: "saveCheckpoint disk2 fs' ?path
            \<lparr> raw_lastProcessedBlock = Some (of_nat (latestBlock report2)),
              raw_pendingAgentIds = map (\<lambda>n. BigIntOf (int n)) (queuedAgentIds report2) \<rparr>
          = (Inr u2, fs2)"
        using cycle_success [OF cyc2] cfg load by auto
      obtain latest2 logs2 where
        rep2: "newEventCount report2 = length logs2"
          "processedAgentIds report2 = take ?N (sortedDirtyAgents ?cp2 logs2)"
          "queuedAgentIds report2 = drop ?N (sortedDirtyAgents ?cp2 logs2)"
          "processedAgentCount report2 = length (processedAgentIds report2)"
        using scan_and_update_report [OF scan2] by auto
      have "logs2 = []"
        using rep2(1) quiet by simp
      then have s2: "sortedDirtyAgents ?cp2 logs2 = queuedAgentIds report"
        using dirty_of_pending [OF dq] sq by (simp add: sortedDirtyAgents_def sort_key_id_if_sorted)
      have p2: "processedAgentIds report2 = queuedAgentIds report"
        and q2: "queuedAgentIds report2 = []"
        unfolding rep2 s2 one using lq by simp_all
      have "loadCheckpoint fs2 ?path
          = Inr \<lparr> lastProcessedBlock = Some (latestBlock report2), pendingAgentIds = [] \<rparr>"
        using saveCheckpoint_done [OF save2] normalize_queued [of "[]" "latestBlock report2"]
        by (simp add: q2)
      then show ?thesis
        using p2 q2 rep2(4) lq by simp
    qed
    have "\<forall>fuel2 nowMs2 ch2 disk2 report2 fs2.
               runIndexerCycle fuel2 settings nowMs2 ch2 disk2 fs' = (Some (Inr report2), fs2)
               \<and> newEventCount report2 = 0 \<longrightarrow>
               processedAgentIds report2 = queuedAgentIds report
               \<and> processedAgentCount report2 = 1
               \<and> queuedAgentIds report2 = []
               \<and> loadCheckpoint fs2 ?path
                   = Inr \<lparr> lastProcessedBlock = Some (latestBlock report2),
                           pendingAgentIds = [] \<rparr>"
      using second by blast
    moreover have "processedAgentCount report = 1" "queuedAgentCount report = 1"
      using lq lp rep(4,5) by simp_all
    ultimately show ?thesis
      using lq by blast
  qed
  have c1: "set (dirtyAgentIds cp logs)
        = set (pendingAgentIds cp)
          \<union> {n. \<exists>lg \<in> set logs. normalizeAgentIdString (arg_agentId lg) = Some n}"
    by (rule set_dirtyAgentIds)
  have c2: "processedAgentIds report
        = take ?N (sorted_list_of_set (set (dirtyAgentIds cp logs)))"
    and c3: "queuedAgentIds report
        = drop ?N (sorted_list_of_set (set (dirtyAgentIds cp logs)))"
    using rep(2,3) s by simp_all
  have c5: "\<forall>logs'. set (dirtyAgentIds cp logs) - set (processedAgentIds report)
          \<subseteq> set (dirtyAgentIds
                  \<lparr> lastProcessedBlock = Some latest, pendingAgentIds = queuedAgentIds report \<rparr>
                  logs')"
    using next_dirty by blast
  have c6: "card (set (dirtyAgentIds cp logs)) = 2 \<and> ?N = 1 \<longrightarrow>
         processedAgentCount report = 1 \<and> queuedAgentCount report = 1
         \<and> length (queuedAgentIds report) = 1
         \<and> (\<forall>fuel2 nowMs2 ch2 disk2 report2 fs2.
               runIndexerCycle fuel2 settings nowMs2 ch2 disk2 fs' = (Some (Inr report2), fs2)
               \<and> newEventCount report2 = 0 \<longrightarrow>
               processedAgentIds report2 = queuedAgentIds report
               \<and> processedAgentCount report2 = 1
               \<and> queuedAgentIds report2 = []
               \<and> loadCheckpoint fs2 ?path
                   = Inr \<lparr> lastProcessedBlock = Some (latestBlock report2),
                           pendingAgentIds = [] \<rparr>)"
    using two by blast
  show ?thesis
    by (intro conjI c1 c2 c3 load c5 c6)
qed

theorem overflow_carries_over_witness:
  "runIndexerCycle (Suc 0) test_settings (dbl 1770854400000) test_chain no_faults no_files
     = (Some (Inr first_report), after_first)
   \<and> processedAgentIds first_report = [10]
   \<and> queuedAgentIds first_report = [11]
   \<and> loadCheckpoint after_first ''checkpoint.json''
     = Inr \<lparr> lastProcessedBlock = Some 6, pendingAgentIds = [11] \<rparr>
   \<and> runIndexerCycle (Suc 0) test_settings (dbl 1770854400000) test_chain no_faults after_first
     = (Some (Inr second_report), after_second)
   \<and> newEventCount second_report = 0
   \<and> processedAgentIds second_report = [11]
   \<and> queuedAgentIds second_report = []
   \<and> loadCheckpoint after_second ''checkpoint.json''
     = Inr \<lparr> lastProcessedBlock = Some 6, pendingAgentIds = [] \<rparr>"
proof -
  let ?zero = "\<lparr> lastProcessedBlock = None, pendingAgentIds = [] \<rparr>"
  have p: "run_checkpointPath test_config = ''checkpoint.json''"
    by (simp add: test_config_def)
  have n: "run_maxBatchSize test_config = 1"
    by (simp add: test_config_def)
  have cyc1: "runIndexerCycle (Suc 0) test_settings (dbl 1770854400000) test_chain no_faults no_files
     = (Some (Inr first_report), after_first)"
    unfolding after_first_def using first_cycle by simp
  have cp: "loadCheckpoint no_files (run_checkpointPath test_config) = Inr ?zero"
    using load_no_files p by simp
  have dirty: "card (set (dirtyAgentIds ?zero registry_logs)) = 2"
    by (simp add: dirtyAgentIds_def registry_logs_def feedback_event_def
          normalizeAgentIdString_def set_add_def)
  note facts = overflow_carries_over [OF cyc1 resolve_test_settings cp first_observe]
  have load1: "loadCheckpoint after_first ''checkpoint.json''
     = Inr \<lparr> lastProcessedBlock = Some 6, pendingAgentIds = [11] \<rparr>"
    using facts p by (simp add: first_report_def)
  have cyc2: "runIndexerCycle (Suc 0) test_settings (dbl 1770854400000) test_chain no_faults after_first
     = (Some (Inr second_report), after_second)"
    unfolding after_second_def using second_cycle [OF load1]
    by (simp add: prod_eq_iff)
  have quiet: "newEventCount second_report = 0"
    by (simp add: second_report_def)
  note two = facts [THEN conjunct2, THEN conjunct2, THEN conjunct2, THEN conjunct2,
      THEN conjunct2, rule_format, OF conjI, OF dirty n]
  note next_cycle = two [THEN conjunct2, THEN conjunct2, THEN conjunct2, rule_format,
      OF conjI, OF cyc2 quiet]
  have later: "processedAgentIds second_report = queuedAgentIds first_report"
    "queuedAgentIds second_report = []"
    "loadCheckpoint after_second (run_checkpointPath test_config)
       = Inr \<lparr> lastProcessedBlock = Some (latestBlock second_report), pendingAgentIds = [] \<rparr>"
    using next_cycle by simp_all
  show ?thesis
    using cyc1 load1 cyc2 quiet later p by (simp add: first_report_def second_report_def)
qed

subsection \<open>Failed cycles\<close>

text \<open>
  C5. A cycle that raises leaves the checkpoint file as it was: the file holds what it
  held before, and loading it gives the same \<open>{lastProcessedBlock, pendingAgentIds}\<close>.
  When the raise comes before step 6 has completed (no report was reached), nothing in the
  file system has changed at all.
\<close>

theorem failed_cycle_keeps_checkpoint:
  assumes "runIndexerCycle fuel settings nowMs ch disk fs = (Some (Inl e), fs')"
  shows "fs' (checkpoint_file settings) = fs (checkpoint_file settings)
    \<and> loadCheckpoint fs' (checkpoint_file settings) = loadCheckpoint fs (checkpoint_file settings)
    \<and> ((\<forall>config cp report.
           resolveRuntimeConfig settings = Inr config
           \<and> loadCheckpoint fs (run_checkpointPath config) = Inr cp
           \<longrightarrow> scan_and_update fuel config nowMs ch cp \<noteq> Some (Inr report))
        \<longrightarrow> fs' = fs)"
proof -
  have kept: "fs' (checkpoint_file settings) = fs (checkpoint_file settings)"
  proof (cases "resolveRuntimeConfig settings")
    case (Inl err)
    then show ?thesis
      using cycle_unresolved [OF assms] by simp
  next
    case (Inr config)
    then show ?thesis
      using cycle_raises [OF assms Inr] resolved_path [OF Inr] by simp
  qed
  then have "loadCheckpoint fs' (checkpoint_file settings) = loadCheckpoint fs (checkpoint_file settings)"
    by (simp add: loadCheckpoint_def)
  moreover have "fs' = fs"
    if "\<forall>config cp report.
           resolveRuntimeConfig settings = Inr config
           \<and> loadCheckpoint fs (run_checkpointPath config) = Inr cp
           \<longrightarrow> scan_and_update fuel config nowMs ch cp \<noteq> Some (Inr report)"
    using assms that unfolding runIndexerCycle_def
    by (auto split: sum.splits option.splits prod.splits)
  ultimately show ?thesis
    using kept by blast
qed

theorem failed_cycle_keeps_checkpoint_witness:
  "runIndexerCycle (Suc 0) test_settings (dbl 1770854400000) reverting_chain no_faults one_pending
     = (Some (Inl (Error ''execution reverted'')), one_pending)
   \<and> loadCheckpoint one_pending (checkpoint_file test_settings)
     = Inr \<lparr> lastProcessedBlock = Some 6, pendingAgentIds = [11] \<rparr>"
proof -
  have "checkpoint_file test_settings = ''checkpoint.json''"
    by (simp add: checkpoint_file_def test_settings_def)
  then show ?thesis
    using reverted_cycle failed_cycle_keeps_checkpoint [OF reverted_cycle] load_one_pending
    by simp
qed

end
